theory Spec2Isabelle
  imports Complex_Main "HOL-Library.Sublist"
begin

section \<open>Cell values, rows and strings\<close>

text \<open>
  A cell holds a JavaScript primitive. The CSV parser produces strings, the JSON parser
  strings and numbers; \<open>null\<close> and \<open>undefined\<close> arise from edits and from reading a
  property a row does not have. A number is a finite double, given by its exact value, a
  rational; \<open>-0\<close> is \<open>0\<close> (the two are \<open>===\<close>, equal as members of a \<open>Set\<close> and
  print alike). \<open>NaN\<close> and the infinities are not modelled: JSON has no literal for them.
  A rational that is not the value of a double stands for no cell. On these values
  \<open>===\<close> and the SameValueZero comparison of \<open>Set.has\<close> are both HOL equality: a number
  never equals a string, \<open>null\<close> never equals \<open>undefined\<close>.
\<close>

datatype jsval = JNull | JUndefined | JStr string | JNum rat

text \<open>
  A row is an object: its own properties in enumeration order, with distinct names.
  \<open>row[col]\<close> is \<open>undefined\<close> when the row has no such property.
\<close>

type_synonym row = "(string \<times> jsval) list"

definition get :: "row \<Rightarrow> string \<Rightarrow> jsval" where
  "get r c = (case map_of r c of None \<Rightarrow> JUndefined | Some v \<Rightarrow> v)"

definition Object_keys :: "row \<Rightarrow> string list" where
  "Object_keys r = map fst r"

definition Object_values :: "row \<Rightarrow> jsval list" where
  "Object_values r = map snd r"

text \<open>The test \<open>val === '' || val == null\<close>.\<close>

definition isNullOrEmpty :: "jsval \<Rightarrow> bool" where
  "isNullOrEmpty v = (v = JStr [] \<or> v = JNull \<or> v = JUndefined)"

subsection \<open>Numbers as text\<close>

definition digit_char :: "nat \<Rightarrow> char" where
  "digit_char n = char_of (48 + n)"

function show_nat :: "nat \<Rightarrow> string" where
  "show_nat n = (if n < 10 then [digit_char n] else show_nat (n div 10) @ [digit_char (n mod 10)])"
  by pat_completeness auto
termination
  by (relation "measure id") auto

declare show_nat.simps [simp del]

text \<open>
  \<open>Number::toString\<close> of ECMAScript, radix 10. The digits of a positive number \<open>x\<close> are
  those of the integer \<open>s\<close> with the fewest digits \<open>k\<close> such that \<open>s * 10^(n - k)\<close> rounds
  to \<open>x\<close> as a double (round to nearest, ties to even, subnormals below \<open>2^-1022\<close>); of
  two such \<open>s\<close> the one nearer to \<open>x\<close>. Up to 21 integer digits and down to six zeros
  after the point the number is written in positional notation, otherwise with an exponent.
\<close>

text \<open>The decimal digits of a non-negative integer.\<close>

function digitsOf :: "int \<Rightarrow> string" where
  "digitsOf n = (if n < 10 then [digit_char (nat n)] else digitsOf (n div 10) @ [digit_char (nat (n mod 10))])"
  by pat_completeness auto
termination
  by (relation "measure nat") auto

declare digitsOf.simps [simp del]

text \<open>
  The number of base-\<open>b\<close> digits of a positive integer, and from it the greatest \<open>e\<close>
  with \<open>b^e \<le> x\<close> for a positive rational \<open>x\<close>.
\<close>

function digitCount :: "int \<Rightarrow> int \<Rightarrow> int" where
  "digitCount b n = (if n \<le> 0 \<or> b \<le> 1 then 0 else 1 + digitCount b (n div b))"
  by pat_completeness auto
termination
  by (relation "measure (\<lambda>(b, n). nat n)") (auto simp: pos_imp_zdiv_nonneg_iff intro!: int_div_less_self)

declare digitCount.simps [simp del]

definition floorLog :: "int \<Rightarrow> rat \<Rightarrow> int" where
  "floorLog b x =
     (let (p, q) = quotient_of x;
          d = digitCount b p - digitCount b q
      in if power_int (of_int b) d \<le> x then d else d - 1)"

text \<open>
  The double nearest to a positive rational: a multiple of the unit in the last place,
  which is \<open>2^(e - 52)\<close> for \<open>2^e \<le> x < 2^(e + 1)\<close> and \<open>2^-1074\<close> for subnormals. A
  result of \<open>2^1024\<close> stands for \<open>Infinity\<close>, which no finite double equals.
\<close>

definition roundHalfEven :: "rat \<Rightarrow> int" where
  "roundHalfEven r =
     (let f = \<lfloor>r\<rfloor>; d = r - of_int f
      in if d < 1 / 2 then f else if 1 / 2 < d then f + 1 else if even f then f else f + 1)"

definition roundDouble :: "rat \<Rightarrow> rat" where
  "roundDouble x =
     (let e = max (floorLog 2 x) (- 1022);
          ulp = power_int 2 (e - 52)
      in of_int (roundHalfEven (x / ulp)) * ulp)"

text \<open>
  The \<open>k\<close>-digit candidates for \<open>10^(n - 1) \<le> x < 10^n\<close>: the two integers around
  \<open>x / 10^(n - k)\<close> that round back to \<open>x\<close>. Seventeen digits always suffice for a double.
\<close>

definition roundTrips :: "rat \<Rightarrow> int \<Rightarrow> int \<Rightarrow> int list" where
  "roundTrips x n k =
     (let scale = power_int 10 (n - k); lo = \<lfloor>x / scale\<rfloor>
      in filter (\<lambda>s. roundDouble (of_int s * scale) = x) [lo, lo + 1])"

definition closestTo :: "rat \<Rightarrow> rat \<Rightarrow> int list \<Rightarrow> int" where
  "closestTo x scale ss =
     (case ss of
        [lo, hi] \<Rightarrow> (let below = x - of_int lo * scale; above = of_int hi * scale - x
                     in if below < above then lo else if above < below then hi
                        else if even lo then lo else hi)
      | _ \<Rightarrow> hd ss)"

definition shortestDecimal :: "rat \<Rightarrow> int \<times> int" where
  "shortestDecimal x =
     (let n = floorLog 10 x + 1
      in case List.find (\<lambda>k. roundTrips x n k \<noteq> []) [1..17] of
           Some k \<Rightarrow> (closestTo x (power_int 10 (n - k)) (roundTrips x n k), n - k)
         | None \<Rightarrow> (\<lfloor>x / power_int 10 (n - 17)\<rfloor>, n - 17))"

text \<open>
  The notation: with \<open>k\<close> digits and the decimal point after the \<open>n\<close>-th, steps 6 to 10
  of \<open>Number::toString\<close>.
\<close>

definition stripZeros :: "string \<Rightarrow> string" where
  "stripZeros ds = rev (dropWhile (\<lambda>c. c = CHR ''0'') (rev ds))"

definition positiveToString :: "rat \<Rightarrow> string" where
  "positiveToString x =
     (let (s, e) = shortestDecimal x;
          ds = stripZeros (digitsOf s);
          k = int (length ds);
          n = e + int (length (digitsOf s))
      in if k \<le> n \<and> n \<le> 21 then ds @ replicate (nat (n - k)) CHR ''0''
         else if 0 < n \<and> n \<le> 21 then take (nat n) ds @ ''.'' @ drop (nat n) ds
         else if - 6 < n \<and> n \<le> 0 then ''0.'' @ replicate (nat (- n)) CHR ''0'' @ ds
         else (if k = 1 then ds else hd ds # ''.'' @ tl ds)
              @ ''e'' @ (if n - 1 < 0 then ''-'' else ''+'') @ digitsOf \<bar>n - 1\<bar>)"

definition Number_toString :: "rat \<Rightarrow> string" where
  "Number_toString x =
     (if x = 0 then ''0'' else if x < 0 then ''-'' @ positiveToString (- x) else positiveToString x)"

text \<open>\<open>String(v)\<close>, which is also what a template literal \<open>`${v}`\<close> inserts.\<close>

fun js_String :: "jsval \<Rightarrow> string" where
  "js_String JNull = ''null''"
| "js_String JUndefined = ''undefined''"
| "js_String (JStr s) = s"
| "js_String (JNum n) = Number_toString n"

subsection \<open>String methods\<close>

text \<open>
  Strings are sequences of 8-bit code units (the Latin-1 range of JavaScript's UTF-16
  strings). \<open>trim\<close> removes white space and line terminators at both ends; in this range
  they are TAB, LF, VT, FF, CR, SPACE and NBSP.
\<close>

definition isWhiteSpace :: "char \<Rightarrow> bool" where
  "isWhiteSpace c = (of_char c \<in> {9, 10, 11, 12, 13, 32, 160 :: nat})"

definition trim :: "string \<Rightarrow> string" where
  "trim s = rev (dropWhile isWhiteSpace (rev (dropWhile isWhiteSpace s)))"

text \<open>
  Case mapping in the Latin-1 range. Lower case: A-Z and the accented capitals
  (0xC0-0xDE without the multiplication sign). Upper case: a-z and the accented small
  letters (0xE0-0xFE without the division sign); sharp s becomes \<open>SS\<close>. The two letters
  whose capital lies outside the range (0xB5, 0xFF) stay as they are: like their capitals
  they are no ASCII letter, and the results are only compared with ASCII literals.
\<close>

definition toLowerCase_char :: "char \<Rightarrow> char" where
  "toLowerCase_char c =
     (let n = (of_char c :: nat)
      in if (65 \<le> n \<and> n \<le> 90) \<or> (192 \<le> n \<and> n \<le> 222 \<and> n \<noteq> 215) then char_of (n + 32) else c)"

definition toLowerCase :: "string \<Rightarrow> string" where
  "toLowerCase s = map toLowerCase_char s"

definition toUpperCase_char :: "char \<Rightarrow> string" where
  "toUpperCase_char c =
     (let n = (of_char c :: nat)
      in if (97 \<le> n \<and> n \<le> 122) \<or> (224 \<le> n \<and> n \<le> 254 \<and> n \<noteq> 247) then [char_of (n - 32)]
         else if n = 223 then ''SS'' else [c])"

definition toUpperCase :: "string \<Rightarrow> string" where
  "toUpperCase s = concat (map toUpperCase_char s)"

text \<open>\<open>s.includes(t)\<close>: \<open>t\<close> occurs in \<open>s\<close> as a contiguous piece.\<close>

definition js_includes :: "string \<Rightarrow> string \<Rightarrow> bool" where
  "js_includes s t = sublist t s"

section \<open>The type validator\<close>

text \<open>
  \<open>validateDataType\<close> of violationChecker.js. Two tests are left to the host: the
  FLOAT family's \<open>!isNaN(parseFloat(t)) && isFinite(t)\<close> and the DATE family's
  \<open>!isNaN(Date.parse(t))\<close>, whose outcome depends on the engine; they are parameters.
\<close>

record host =
  numberText :: "string \<Rightarrow> bool"
  dateText :: "string \<Rightarrow> bool"

definition isDigit :: "char \<Rightarrow> bool" where
  "isDigit c = (48 \<le> (of_char c :: nat) \<and> (of_char c :: nat) \<le> 57)"

text \<open>The regular expression \<open>/^-?\d+$/\<close>.\<close>

fun matchesIntegerRegex :: "string \<Rightarrow> bool" where
  "matchesIntegerRegex [] = False"
| "matchesIntegerRegex (c # cs) =
     (if c = CHR ''-'' then cs \<noteq> [] \<and> list_all isDigit cs else list_all isDigit (c # cs))"

text \<open>The integer a text of that shape writes.\<close>

definition digitsValue :: "string \<Rightarrow> int" where
  "digitsValue ds = foldl (\<lambda>acc c. 10 * acc + (of_char c - 48)) 0 ds"

fun integerValue :: "string \<Rightarrow> int" where
  "integerValue [] = 0"
| "integerValue (c # cs) = (if c = CHR ''-'' then - digitsValue cs else digitsValue (c # cs))"

text \<open>
  \<open>parseFloat\<close> rounds the integer written to the nearest double. The result is
  \<open>Infinity\<close> exactly from the midpoint between the largest double and \<open>2^1024\<close> on.
\<close>

definition isFiniteDouble :: "int \<Rightarrow> bool" where
  "isFiniteDouble v = (\<bar>v\<bar> < 2 ^ 1024 - 2 ^ 970)"

text \<open>
  The INTEGER branch is \<open>!isNaN(num) && isFinite(num) && Number.isInteger(num) &&
  /^-?\d+$/.test(trimmedVal)\<close> with \<open>num = parseFloat(trimmedVal)\<close>. All four tests are
  pure, and the last one fails unless the text is an optional minus and digits; on such a
  text \<open>num\<close> is the rounded integer, so it is not \<open>NaN\<close>, it is integral when finite, and
  only the finiteness test is left of the first three.
\<close>

definition isValidInteger :: "string \<Rightarrow> bool" where
  "isValidInteger trimmedVal =
     (isFiniteDouble (integerValue trimmedVal) \<and> matchesIntegerRegex trimmedVal)"

definition validateDataType :: "host \<Rightarrow> jsval \<Rightarrow> string \<Rightarrow> bool" where
  "validateDataType h val sqlType =
     (if val = JStr [] \<or> val = JNull \<or> val = JUndefined then True
      else let trimmedVal = trim (js_String val) in
        if trimmedVal = [] then True
        else let t = toUpperCase sqlType in
          if t \<in> {''INT'', ''INTEGER'', ''BIGINT''} then isValidInteger trimmedVal
          else if t \<in> {''FLOAT'', ''DOUBLE'', ''DECIMAL'', ''NUMERIC''} then numberText h trimmedVal
          else if t \<in> {''BOOLEAN'', ''BOOL''} then
            toLowerCase trimmedVal \<in> set [''true'', ''false'', ''1'', ''0'', ''yes'', ''no'']
          else if t \<in> {''DATE'', ''DATETIME'', ''TIMESTAMP''} then dateText h trimmedVal
          else True)"

section \<open>Violation detection\<close>

text \<open>
  A violation object. \<open>row\<close> is a number (1-based); only the violations returned by
  \<open>checkForeignKeyViolations\<close> carry the offending \<open>value\<close>.
\<close>

record violation =
  v_row :: int
  v_col :: string
  v_type :: string
  v_msg :: string
  v_value :: "jsval option"

definition quote :: char where
  "quote = CHR 0x27"

definition dquote :: char where
  "dquote = CHR 0x22"

subsection \<open>checkForeignKeyViolations\<close>

text \<open>
  The four arguments may be missing (\<open>table.rows\<close> of a table without rows, a column
  name that is \<open>null\<close>); a missing argument and an empty column name are falsy.
\<close>

definition checkForeignKeyViolations ::
  "row list option \<Rightarrow> row list option \<Rightarrow> string option \<Rightarrow> string option \<Rightarrow> violation list" where
  "checkForeignKeyViolations foreignRows primaryRows fkCol pkCol =
     (case (foreignRows, primaryRows, fkCol, pkCol) of
        (Some frs, Some prs, Some fk, Some pk) \<Rightarrow>
          if fk = [] \<or> pk = [] then []
          else
            let primarySet = set (map (\<lambda>row. trim (js_String (get row pk)))
                                   (filter (\<lambda>row. \<not> isNullOrEmpty (get row pk)) prs))
            in concat (map (\<lambda>(i, row).
                 let fkVal = get row fk in
                 if isNullOrEmpty fkVal then []
                 else let fkValStr = trim (js_String fkVal) in
                   if fkValStr \<notin> primarySet
                   then [\<lparr>v_row = int i + 1, v_col = fk, v_type = ''FOREIGN KEY'',
                          v_msg = ''Value '' @ [quote] @ js_String fkVal @ [quote]
                                  @ '' not found in primary key column'',
                          v_value = Some fkVal\<rparr>]
                   else [])
               (enumerate 0 frs))
      | _ \<Rightarrow> [])"

subsection \<open>checkViolations\<close>

text \<open>The type pass of one column: one TYPE MISMATCH per row whose value fails the validator.\<close>

definition typePass :: "host \<Rightarrow> string \<Rightarrow> string \<Rightarrow> row list \<Rightarrow> violation list" where
  "typePass h col dataType tableData =
     concat (map (\<lambda>(i, row).
        let val = get row col in
        if \<not> validateDataType h val dataType
        then [\<lparr>v_row = int i + 1, v_col = col, v_type = ''TYPE MISMATCH'',
               v_msg = ''Type mismatch: expected '' @ dataType @ '', got '' @ [dquote]
                       @ js_String val @ [dquote],
               v_value = None\<rparr>]
        else [])
      (enumerate 0 tableData))"

text \<open>
  The primary-key pass: \<open>seen\<close> is the \<open>Set\<close> of the values met so far, \<open>i\<close> the index
  of the row at the head of the list.
\<close>

fun primaryPass :: "string \<Rightarrow> jsval set \<Rightarrow> nat \<Rightarrow> row list \<Rightarrow> violation list" where
  "primaryPass col seen i [] = []"
| "primaryPass col seen i (row # rest) =
     (let val = get row col in
      if val = JStr [] \<or> val = JNull \<or> val = JUndefined
      then \<lparr>v_row = int i + 1, v_col = col, v_type = ''PRIMARY KEY'',
            v_msg = ''Null/empty value'', v_value = None\<rparr> # primaryPass col seen (Suc i) rest
      else if val \<in> seen
      then \<lparr>v_row = int i + 1, v_col = col, v_type = ''PRIMARY KEY'',
            v_msg = ''Duplicate value'', v_value = None\<rparr> # primaryPass col seen (Suc i) rest
      else primaryPass col (insert val seen) (Suc i) rest)"

fun uniquePass :: "string \<Rightarrow> jsval set \<Rightarrow> nat \<Rightarrow> row list \<Rightarrow> violation list" where
  "uniquePass col seen i [] = []"
| "uniquePass col seen i (row # rest) =
     (let val = get row col in
      if val \<noteq> JStr [] \<and> val \<noteq> JNull \<and> val \<noteq> JUndefined
      then if val \<in> seen
        then \<lparr>v_row = int i + 1, v_col = col, v_type = ''UNIQUE'',
              v_msg = ''Duplicate value'', v_value = None\<rparr> # uniquePass col seen (Suc i) rest
        else uniquePass col (insert val seen) (Suc i) rest
      else uniquePass col seen (Suc i) rest)"

definition notnullPass :: "string \<Rightarrow> row list \<Rightarrow> violation list" where
  "notnullPass col tableData =
     concat (map (\<lambda>(i, row).
        let val = get row col in
        if val = JStr [] \<or> val = JNull \<or> val = JUndefined
        then [\<lparr>v_row = int i + 1, v_col = col, v_type = ''NOT NULL'',
               v_msg = ''Null/empty value'', v_value = None\<rparr>]
        else [])
      (enumerate 0 tableData))"

text \<open>
  The body of \<open>columns.forEach((col, idx) => ...)\<close>. \<open>confirmedConstraints[idx] || []\<close>
  and \<open>confirmedTypes[idx] || 'VARCHAR'\<close> fall back when the index is out of range, the
  second also when the type is the empty string.
\<close>

definition constraintsAt :: "string list list \<Rightarrow> nat \<Rightarrow> string list" where
  "constraintsAt confirmedConstraints idx =
     (if idx < length confirmedConstraints then confirmedConstraints ! idx else [])"

definition dataTypeAt :: "string list \<Rightarrow> nat \<Rightarrow> string" where
  "dataTypeAt confirmedTypes idx =
     (if idx < length confirmedTypes \<and> confirmedTypes ! idx \<noteq> [] then confirmedTypes ! idx
      else ''VARCHAR'')"

definition columnViolations ::
  "host \<Rightarrow> row list \<Rightarrow> string list list \<Rightarrow> string list \<Rightarrow> nat \<Rightarrow> string \<Rightarrow> violation list" where
  "columnViolations h tableData confirmedConstraints confirmedTypes idx col =
     (let constraints = constraintsAt confirmedConstraints idx;
          dataType = dataTypeAt confirmedTypes idx
      in typePass h col dataType tableData
         @ (if ''primary'' \<in> set constraints then primaryPass col {} 0 tableData else [])
         @ (if ''unique'' \<in> set constraints then uniquePass col {} 0 tableData else [])
         @ (if ''notnull'' \<in> set constraints then notnullPass col tableData else []))"

text \<open>
  The foreign-key link and the uploaded tables. A field of the link is \<open>null\<close> until the
  file is chosen, and a \<open>null\<close> or empty field is falsy; a table object has \<open>columns\<close>
  and \<open>rows\<close>.
\<close>

record fk_config =
  fk_primaryFile :: "string option"
  fk_fkCol :: "string option"
  fk_referencedFile :: "string option"

record file_table =
  t_columns :: "string list option"
  t_rows :: "row list option"

text \<open>
  The referenced key column: the first column whose index carries \<open>primary\<close> in
  \<open>confirmedConstraints\<close>, else the first column; \<open>null\<close> without columns.
\<close>

definition findPkCol :: "string list list \<Rightarrow> string list option \<Rightarrow> string option" where
  "findPkCol confirmedConstraints cols =
     (case cols of
        None \<Rightarrow> None
      | Some [] \<Rightarrow> None
      | Some (c # cs) \<Rightarrow>
          (case find (\<lambda>idx. ''primary'' \<in> set (constraintsAt confirmedConstraints idx))
                     [0 ..< length (c # cs)] of
             Some primaryIdx \<Rightarrow> Some ((c # cs) ! primaryIdx)
           | None \<Rightarrow> Some c))"

definition foreignKeyPass ::
  "string list list \<Rightarrow> (string \<rightharpoonup> file_table) \<Rightarrow> fk_config option \<Rightarrow> violation list" where
  "foreignKeyPass confirmedConstraints fileTables foreignKeyConfig =
     (case foreignKeyConfig of
        None \<Rightarrow> []
      | Some cfg \<Rightarrow>
          (case (fk_primaryFile cfg, fk_fkCol cfg, fk_referencedFile cfg) of
             (Some primaryFile, Some fkCol, Some referencedFile) \<Rightarrow>
               if primaryFile = [] \<or> fkCol = [] \<or> referencedFile = [] then []
               else
                 (case (fileTables primaryFile, fileTables referencedFile) of
                    (Some primaryTable, Some foreignTable) \<Rightarrow>
                      let pkCol = findPkCol confirmedConstraints (t_columns primaryTable);
                          violationsFK = checkForeignKeyViolations (t_rows foreignTable)
                                           (t_rows primaryTable) (Some fkCol) pkCol
                      in map (\<lambda>v. \<lparr>v_row = v_row v, v_col = fkCol, v_type = ''FOREIGN KEY'',
                                    v_msg = ''Value '' @ [quote]
                                            @ (case v_value v of None \<Rightarrow> ''undefined''
                                               | Some x \<Rightarrow> js_String x)
                                            @ [quote] @ '' not found in '' @ primaryFile @ ''.''
                                            @ (case pkCol of None \<Rightarrow> ''null'' | Some p \<Rightarrow> p),
                                    v_value = None\<rparr>)
                             violationsFK
                  | _ \<Rightarrow> [])
           | _ \<Rightarrow> []))"

definition checkViolations ::
  "host \<Rightarrow> row list \<Rightarrow> string list list \<Rightarrow> (string \<rightharpoonup> file_table) \<Rightarrow> fk_config option
     \<Rightarrow> string list \<Rightarrow> violation list" where
  "checkViolations h tableData confirmedConstraints fileTables foreignKeyConfig confirmedTypes =
     (if tableData = [] \<or> confirmedConstraints = [] then []
      else
        let columns = Object_keys (hd tableData)
        in concat (map (\<lambda>(idx, col).
                      columnViolations h tableData confirmedConstraints confirmedTypes idx col)
                    (enumerate 0 columns))
           @ foreignKeyPass confirmedConstraints fileTables foreignKeyConfig)"

text \<open>
  The first thing \<open>checkViolations\<close> evaluates is \<open>tableData.length\<close>; on \<open>null\<close> or
  \<open>undefined\<close> in place of the array that property access throws a TypeError.
\<close>

datatype js_error = TypeError


section \<open>Position tracking after a deletion\<close>

text \<open>\<open>updateViolationsAfterDelete\<close> of editUtils.js; \<open>checkResults\<close> may be \<open>null\<close>.\<close>

definition updateViolationsAfterDelete :: "violation list option \<Rightarrow> int \<Rightarrow> violation list" where
  "updateViolationsAfterDelete checkResults deleteIndex =
     (case checkResults of
        None \<Rightarrow> []
      | Some vs \<Rightarrow>
          if vs = [] then []
          else map (\<lambda>violation.
                      if v_row violation - 1 > deleteIndex
                      then violation\<lparr>v_row := v_row violation - 1\<rparr>
                      else violation)
                 (filter (\<lambda>violation. v_row violation - 1 \<noteq> deleteIndex) vs))"

section \<open>Repair generation\<close>

text \<open>
  A candidate repair, as \<open>generatePrimaryKeyRepairs\<close> and \<open>generateGeneralRepairs\<close>
  build it (the first without a description).
\<close>

record repair_file =
  r_name :: string
  r_rows :: "row list"
  r_columns :: "string list"
  r_description :: "string option"



text \<open>\<open>selectedFile || 'table'\<close>, and \<open>Object.keys(tableData[0] || {})\<close>.\<close>

definition fileOrTable :: "string option \<Rightarrow> string" where
  "fileOrTable selectedFile =
     (case selectedFile of None \<Rightarrow> ''table'' | Some f \<Rightarrow> if f = [] then ''table'' else f)"

definition columnsOf :: "row list \<Rightarrow> string list" where
  "columnsOf tableData = (case tableData of [] \<Rightarrow> [] | row0 # _ \<Rightarrow> Object_keys row0)"

text \<open>The elements of \<open>new Set(xs)\<close> in iteration order: first occurrences, in order.\<close>

fun js_Set :: "'a list \<Rightarrow> 'a list" where
  "js_Set [] = []"
| "js_Set (x # xs) = x # removeAll x (js_Set xs)"

text \<open>The map key \<open>`${col}:${value}`\<close> of a row in a column.\<close>

definition cellKey :: "string \<Rightarrow> row \<Rightarrow> string" where
  "cellKey col row = col @ '':'' @ js_String (get row col)"

text \<open>
  The three classes of violations, told apart by their message (and, for type
  violations, also by their kind).
\<close>

definition nullViolationsOf :: "violation list \<Rightarrow> violation list" where
  "nullViolationsOf violations = filter (\<lambda>v. js_includes (v_msg v) ''Null/empty value'') violations"

definition duplicateViolationsOf :: "violation list \<Rightarrow> violation list" where
  "duplicateViolationsOf violations = filter (\<lambda>v. js_includes (v_msg v) ''Duplicate value'') violations"


definition rowIndicesOf :: "violation list \<Rightarrow> int set" where
  "rowIndicesOf vs = set (map (\<lambda>v. v_row v - 1) vs)"

subsection \<open>generateGeneralRepairs\<close>

text \<open>
  The loop over the violated columns inside the keep-first filter: it stops with \<open>false\<close>
  at the first column whose key was seen, and records the keys of the columns before it.
\<close>

fun firstOccurrence ::
  "string list \<Rightarrow> row \<Rightarrow> nat \<Rightarrow> (string \<rightharpoonup> nat) \<Rightarrow> bool \<times> (string \<rightharpoonup> nat)" where
  "firstOccurrence [] row idx seenValues = (True, seenValues)"
| "firstOccurrence (col # cols) row idx seenValues =
     (let key = cellKey col row in
      if seenValues key \<noteq> None then (False, seenValues)
      else firstOccurrence cols row idx (seenValues(key \<mapsto> idx)))"

fun keepFirst ::
  "int set \<Rightarrow> string list \<Rightarrow> (string \<rightharpoonup> nat) \<Rightarrow> nat \<Rightarrow> row list \<Rightarrow> row list" where
  "keepFirst nullRowIndices cols seenValues idx [] = []"
| "keepFirst nullRowIndices cols seenValues idx (row # rest) =
     (if int idx \<in> nullRowIndices then keepFirst nullRowIndices cols seenValues (Suc idx) rest
      else case firstOccurrence cols row idx seenValues of
        (keep, seenValues') \<Rightarrow>
          (if keep then [row] else [])
          @ keepFirst nullRowIndices cols seenValues' (Suc idx) rest)"

text \<open>The first pass of keep-last: the last index of every key among the rows that stay.\<close>

fun lastIndicesOf ::
  "int set \<Rightarrow> string list \<Rightarrow> (string \<rightharpoonup> nat) \<Rightarrow> nat \<Rightarrow> row list \<Rightarrow> (string \<rightharpoonup> nat)" where
  "lastIndicesOf nullRowIndices cols lastIndices idx [] = lastIndices"
| "lastIndicesOf nullRowIndices cols lastIndices idx (row # rest) =
     (if int idx \<in> nullRowIndices then lastIndicesOf nullRowIndices cols lastIndices (Suc idx) rest
      else lastIndicesOf nullRowIndices cols
             (foldl (\<lambda>m col. m(cellKey col row \<mapsto> idx)) lastIndices cols) (Suc idx) rest)"

definition keepLast :: "int set \<Rightarrow> string list \<Rightarrow> row list \<Rightarrow> row list" where
  "keepLast nullRowIndices cols tableData =
     (let lastIndices = lastIndicesOf nullRowIndices cols Map.empty 0 tableData
      in map snd (filter (\<lambda>(idx, row).
             int idx \<notin> nullRowIndices
             \<and> list_all (\<lambda>col. lastIndices (cellKey col row) = Some idx) cols)
           (enumerate 0 tableData)))"

definition areRepairsIdentical :: "row list \<Rightarrow> row list \<Rightarrow> bool" where
  "areRepairsIdentical repairRows1 repairRows2 =
     (length repairRows1 = length repairRows2
      \<and> list_all (\<lambda>(row1, row2). list_all (\<lambda>col. get row1 col = get row2 col) (Object_keys row1))
          (zip repairRows1 repairRows2))"

text \<open>
  \<open>clock k\<close> is what the \<open>k\<close>-th call of \<open>Date.now()\<close> in one run returns. The
  bookkeeping the function computes and never reads (\<open>violationsByType\<close>,
  \<open>nullViolatedCols\<close>, \<open>duplicateRowIndices\<close>) is left out.
\<close>

definition generateGeneralRepairs ::
  "violation list \<Rightarrow> row list \<Rightarrow> string option \<Rightarrow> (nat \<Rightarrow> nat) \<Rightarrow> repair_file list" where
  "generateGeneralRepairs violations tableData selectedFile clock =
     (if violations = [] then []
      else
        let nullViolations = nullViolationsOf violations;
            duplicateViolations = duplicateViolationsOf violations;
            duplicateViolatedCols = js_Set (map v_col duplicateViolations);
            nullRowIndices = rowIndicesOf nullViolations
        in
          if duplicateViolations \<noteq> [] \<or> nullViolations \<noteq> [] then
            if duplicateViolations = [] \<and> nullViolations \<noteq> [] then
              let repairRows = map snd (filter (\<lambda>(idx, row). int idx \<notin> nullRowIndices)
                                          (enumerate 0 tableData))
              in [\<lparr>r_name = fileOrTable selectedFile @ ''_repair_1_'' @ show_nat (clock 0) @ ''.csv'',
                    r_rows = repairRows,
                    r_columns = columnsOf tableData,
                    r_description = Some (''Repair 1: Remove empty rows (''
                                          @ show_nat (length repairRows) @ '' rows)'')\<rparr>]
            else
              let repairRows1 = keepFirst nullRowIndices duplicateViolatedCols Map.empty 0 tableData;
                  repairRows2 = keepLast nullRowIndices duplicateViolatedCols tableData
              in [\<lparr>r_name = fileOrTable selectedFile @ ''_repair_1_'' @ show_nat (clock 0) @ ''.csv'',
                    r_rows = repairRows1,
                    r_columns = columnsOf tableData,
                    r_description = Some (''Repair 1: Keep first duplicate and remove empty rows (''
                                          @ show_nat (length repairRows1) @ '' rows)'')\<rparr>]
                 @ (if \<not> areRepairsIdentical repairRows1 repairRows2
                    then [\<lparr>r_name = fileOrTable selectedFile @ ''_repair_2_'' @ show_nat (clock 1)
                                     @ ''.csv'',
                           r_rows = repairRows2,
                           r_columns = columnsOf tableData,
                           r_description = Some (''Repair 2: Keep last duplicate and remove empty rows (''
                                                 @ show_nat (length repairRows2) @ '' rows)'')\<rparr>]
                    else [])
          else [])"

subsection \<open>generatePartialRepairs\<close>








subsection \<open>generatePrimaryKeyRepairs\<close>

text \<open>
  The primary-key columns: for every index carrying \<open>primary\<close> the name of the first
  row's property at that index; \<open>filter(Boolean)\<close> drops the indices without one (no
  first row, index out of range) and the empty name.
\<close>

definition pkColsOf :: "row list \<Rightarrow> string list list \<Rightarrow> string list" where
  "pkColsOf tableData confirmedConstraints =
     concat (map (\<lambda>arr_idx.
        case arr_idx of (idx, arr) \<Rightarrow>
          if ''primary'' \<in> set arr then
            (case tableData of
               [] \<Rightarrow> []
             | row0 # _ \<Rightarrow>
                 if idx < length (Object_keys row0) \<and> Object_keys row0 ! idx \<noteq> []
                 then [Object_keys row0 ! idx] else [])
          else [])
      (enumerate 0 confirmedConstraints))"

text \<open>\<open>Array.prototype.join\<close>: \<open>null\<close> and \<open>undefined\<close> elements become the empty string.\<close>

fun joinWith :: "string \<Rightarrow> string list \<Rightarrow> string" where
  "joinWith sep [] = []"
| "joinWith sep [x] = x"
| "joinWith sep (x # y # ys) = x @ sep @ joinWith sep (y # ys)"

definition joinValues :: "string \<Rightarrow> jsval list \<Rightarrow> string" where
  "joinValues sep vs =
     joinWith sep (map (\<lambda>v. if v = JNull \<or> v = JUndefined then [] else js_String v) vs)"

text \<open>
  \<open>pkGroups\<close> is a plain object literal, so \<open>pkGroups[key]\<close> also finds what
  \<open>Object.prototype\<close> provides. For such a key the test \<open>!pkGroups[key]\<close> fails, no
  array is stored, and \<open>pkGroups[key].push(row)\<close> throws a TypeError.
\<close>

definition Object_prototype_names :: "string list" where
  "Object_prototype_names =
     [''constructor'', ''__defineGetter__'', ''__defineSetter__'', ''hasOwnProperty'',
      ''__lookupGetter__'', ''__lookupSetter__'', ''isPrototypeOf'', ''propertyIsEnumerable'',
      ''toString'', ''valueOf'', ''__proto__'', ''toLocaleString'']"

fun pushToGroup :: "(string \<times> row list) list \<Rightarrow> string \<Rightarrow> row \<Rightarrow> (string \<times> row list) list" where
  "pushToGroup [] key row = [(key, [row])]"
| "pushToGroup ((k, members) # groups) key row =
     (if k = key then (k, members @ [row]) # groups else (k, members) # pushToGroup groups key row)"

fun groupRows ::
  "string list \<Rightarrow> (string \<times> row list) list \<Rightarrow> row list \<Rightarrow> js_error + (string \<times> row list) list" where
  "groupRows pkCols pkGroups [] = Inr pkGroups"
| "groupRows pkCols pkGroups (row # rest) =
     (let key = joinValues ''||'' (map (\<lambda>col. get row col) pkCols) in
      if key \<in> set Object_prototype_names then Inl TypeError
      else groupRows pkCols (pushToGroup pkGroups key row) rest)"

text \<open>
  \<open>Object.values\<close> enumerates the array-index keys first (canonical decimal numerals
  below \<open>2^32 - 1\<close>), in ascending numeric order, then the other keys in insertion order.
\<close>

definition isArrayIndex :: "string \<Rightarrow> bool" where
  "isArrayIndex s =
     (s \<noteq> [] \<and> list_all isDigit s \<and> (s = ''0'' \<or> hd s \<noteq> CHR ''0'') \<and> digitsValue s < 2 ^ 32 - 1)"

definition Object_values_groups :: "(string \<times> row list) list \<Rightarrow> row list list" where
  "Object_values_groups pkGroups =
     map snd (sort_key (\<lambda>kg. digitsValue (fst kg)) (filter (\<lambda>kg. isArrayIndex (fst kg)) pkGroups)
              @ filter (\<lambda>kg. \<not> isArrayIndex (fst kg)) pkGroups)"

text \<open>\<open>arr.reduce((a, b) => a.flatMap(d => b.map(e => [].concat(d, e))), [[]])\<close>.\<close>

definition cartesian :: "'a list list \<Rightarrow> 'a list list" where
  "cartesian arr = foldl (\<lambda>a b. concat (map (\<lambda>d. map (\<lambda>e. d @ [e]) b) a)) [[]] arr"

text \<open>
  \<open>JSON.stringify\<close> of an array of arrays of cell values. In an array \<open>undefined\<close> is
  written \<open>null\<close>; a string is quoted, with the quote, the backslash and the control
  characters escaped.
\<close>

definition hexDigit :: "nat \<Rightarrow> char" where
  "hexDigit n = (if n < 10 then char_of (48 + n) else char_of (87 + n))"

definition JSON_escape :: "char \<Rightarrow> string" where
  "JSON_escape c =
     (let n = (of_char c :: nat) in
      if c = dquote then [CHR 0x5C, dquote]
      else if n = 92 then [CHR 0x5C, CHR 0x5C]
      else if n = 8 then [CHR 0x5C, CHR ''b'']
      else if n = 9 then [CHR 0x5C, CHR ''t'']
      else if n = 10 then [CHR 0x5C, CHR ''n'']
      else if n = 12 then [CHR 0x5C, CHR ''f'']
      else if n = 13 then [CHR 0x5C, CHR ''r'']
      else if n < 32 then [CHR 0x5C, CHR ''u'', CHR ''0'', CHR ''0'', hexDigit (n div 16), hexDigit (n mod 16)]
      else [c])"

fun JSON_value :: "jsval \<Rightarrow> string" where
  "JSON_value JNull = ''null''"
| "JSON_value JUndefined = ''null''"
| "JSON_value (JStr s) = [dquote] @ concat (map JSON_escape s) @ [dquote]"
| "JSON_value (JNum n) = Number_toString n"

definition JSON_array :: "string list \<Rightarrow> string" where
  "JSON_array items = ''['' @ joinWith '','' items @ '']''"

definition JSON_stringify :: "jsval list list \<Rightarrow> string" where
  "JSON_stringify rows = JSON_array (map (\<lambda>r. JSON_array (map JSON_value r)) rows)"

text \<open>
  The loop \<open>allRepairs.forEach((rows, idx) => ...)\<close>: \<open>seenRepairs\<close> and the candidates
  pushed so far are the state. Every candidate pushed reads the clock once.
\<close>

definition survives :: "string list \<Rightarrow> row \<Rightarrow> bool" where
  "survives pkCols row =
     list_all (\<lambda>col. col \<in> set pkCols \<or> \<not> (get row col = JStr [] \<or> get row col = JNull
                                             \<or> get row col = JUndefined))
       (Object_keys row)"

fun collectRepairs ::
  "string list \<Rightarrow> nat \<Rightarrow> string \<Rightarrow> string list \<Rightarrow> (nat \<Rightarrow> nat) \<Rightarrow> string set \<Rightarrow> repair_file list
     \<Rightarrow> nat \<Rightarrow> row list list \<Rightarrow> repair_file list" where
  "collectRepairs pkCols nGroups file columns clock seenRepairs repairFileObjs idx [] = repairFileObjs"
| "collectRepairs pkCols nGroups file columns clock seenRepairs repairFileObjs idx (rows # rest) =
     (if length rows \<noteq> nGroups
      then collectRepairs pkCols nGroups file columns clock seenRepairs repairFileObjs (Suc idx) rest
      else
        let filteredRows = filter (survives pkCols) rows in
        if filteredRows = []
        then collectRepairs pkCols nGroups file columns clock seenRepairs repairFileObjs (Suc idx) rest
        else
          let key = JSON_stringify (map Object_values filteredRows) in
          if key \<in> seenRepairs
          then collectRepairs pkCols nGroups file columns clock seenRepairs repairFileObjs (Suc idx) rest
          else collectRepairs pkCols nGroups file columns clock (insert key seenRepairs)
                 (repairFileObjs
                  @ [\<lparr>r_name = file @ ''_repair_'' @ show_nat (idx + 1) @ ''_''
                               @ show_nat (clock (length repairFileObjs)) @ ''.csv'',
                      r_rows = filteredRows,
                      r_columns = columns,
                      r_description = None\<rparr>])
                 (Suc idx) rest)"

definition generatePrimaryKeyRepairs ::
  "row list \<Rightarrow> string list list \<Rightarrow> string option \<Rightarrow> (nat \<Rightarrow> nat) \<Rightarrow> js_error + repair_file list" where
  "generatePrimaryKeyRepairs tableData confirmedConstraints selectedFile clock =
     (let pkCols = pkColsOf tableData confirmedConstraints in
      if pkCols \<noteq> [] then
        (case groupRows pkCols [] tableData of
           Inl e \<Rightarrow> Inl e
         | Inr pkGroups \<Rightarrow>
             let groupChoices = Object_values_groups pkGroups;
                 allRepairs = cartesian groupChoices
             in Inr (collectRepairs pkCols (length groupChoices) (fileOrTable selectedFile)
                       (columnsOf tableData) clock {} [] 0 allRepairs))
      else Inr [])"

section \<open>Notions of the specification\<close>

text \<open>
  The texts the regular expression \<open>^-?\d+$\<close> describes, in the specification's words:
  an optional minus sign followed by one or more decimal digits.
\<close>

definition spec_integerText :: "string \<Rightarrow> bool" where
  "spec_integerText t =
     (\<exists>sign ds. t = sign @ ds \<and> (sign = [] \<or> sign = ''-'') \<and> ds \<noteq> []
        \<and> (\<forall>c \<in> set ds. c \<in> set ''0123456789''))"

text \<open>Equality of two texts up to the case of the letters A-Z.\<close>

definition asciiFold :: "char \<Rightarrow> char" where
  "asciiFold c =
     (if 65 \<le> (of_char c :: nat) \<and> (of_char c :: nat) \<le> 90 then char_of ((of_char c :: nat) + 32)
      else c)"

definition spec_sameIgnoringCase :: "string \<Rightarrow> string \<Rightarrow> bool" where
  "spec_sameIgnoringCase s t = (map asciiFold s = map asciiFold t)"

definition booleanWords :: "string list" where
  "booleanWords = [''true'', ''false'', ''1'', ''0'', ''yes'', ''no'']"

text \<open>The type names with a branch of their own in the validator.\<close>

definition recognisedTypes :: "string set" where
  "recognisedTypes =
     {''INT'', ''INTEGER'', ''BIGINT'', ''FLOAT'', ''DOUBLE'', ''DECIMAL'', ''NUMERIC'',
      ''BOOLEAN'', ''BOOL'', ''DATE'', ''DATETIME'', ''TIMESTAMP''}"

text \<open>
  The referenced key set, in the specification's words: the trimmed texts of the non-empty
  values of the referenced key column; and a dangling reference: a non-empty value of the
  foreign-key column whose trimmed text is not in that set.
\<close>

definition spec_referencedKeys :: "row list \<Rightarrow> string \<Rightarrow> string set" where
  "spec_referencedKeys primaryRows pkCol =
     {trim (js_String (get r pkCol)) | r. r \<in> set primaryRows \<and> \<not> isNullOrEmpty (get r pkCol)}"

definition spec_dangling :: "row list \<Rightarrow> string \<Rightarrow> string \<Rightarrow> row \<Rightarrow> bool" where
  "spec_dangling primaryRows pkCol fkCol r =
     (\<not> isNullOrEmpty (get r fkCol)
      \<and> trim (js_String (get r fkCol)) \<notin> spec_referencedKeys primaryRows pkCol)"

text \<open>
  The values of a column in the rows before index \<open>i\<close>, and the violation object the
  column passes build for the row of index \<open>i\<close>.
\<close>

definition earlierValues :: "row list \<Rightarrow> string \<Rightarrow> nat \<Rightarrow> jsval set" where
  "earlierValues tableData col i = (\<lambda>r. get r col) ` set (take i tableData)"

definition violationAt :: "nat \<Rightarrow> string \<Rightarrow> string \<Rightarrow> string \<Rightarrow> violation" where
  "violationAt i col kind msg = \<lparr>v_row = int i + 1, v_col = col, v_type = kind, v_msg = msg, v_value = None\<rparr>"

text \<open>
  What the primary-key and the unique pass emit for the row of index \<open>k\<close> of \<open>rows\<close>,
  when the pass started with the set \<open>seen\<close> at row number \<open>i\<close>.
\<close>

definition primaryAt :: "string \<Rightarrow> jsval set \<Rightarrow> nat \<Rightarrow> row list \<Rightarrow> nat \<Rightarrow> violation list" where
  "primaryAt col seen i rows k =
     (if isNullOrEmpty (get (rows ! k) col) then [violationAt (i + k) col ''PRIMARY KEY'' ''Null/empty value'']
      else if get (rows ! k) col \<in> seen \<union> earlierValues rows col k
      then [violationAt (i + k) col ''PRIMARY KEY'' ''Duplicate value'']
      else [])"

definition uniqueAt :: "string \<Rightarrow> jsval set \<Rightarrow> nat \<Rightarrow> row list \<Rightarrow> nat \<Rightarrow> violation list" where
  "uniqueAt col seen i rows k =
     (if \<not> isNullOrEmpty (get (rows ! k) col) \<and> get (rows ! k) col \<in> seen \<union> earlierValues rows col k
      then [violationAt (i + k) col ''UNIQUE'' ''Duplicate value'']
      else [])"

text \<open>
  A primary-key violation in the specification's words: the value is null or empty, or
  it equals the non-null value of an earlier row.
\<close>

definition spec_primaryKeyViolated :: "row list \<Rightarrow> string \<Rightarrow> nat \<Rightarrow> bool" where
  "spec_primaryKeyViolated tableData col i =
     (isNullOrEmpty (get (tableData ! i) col)
      \<or> (\<exists>j<i. \<not> isNullOrEmpty (get (tableData ! j) col)
                \<and> get (tableData ! j) col = get (tableData ! i) col))"

text \<open>
  A table in the sense of the data model: every row has the columns of the first row, in
  the same order, each once. Both parsers produce such tables.
\<close>

definition wellFormedTable :: "row list \<Rightarrow> bool" where
  "wellFormedTable tableData =
     (\<forall>r \<in> set tableData. Object_keys r = columnsOf tableData \<and> distinct (Object_keys r))"

text \<open>
  The row sequences \<open>generateGeneralRepairs\<close> computes from a violation list: \<open>repairRows\<close>
  (null removal only), \<open>repairRows1\<close> (keep-first) and \<open>repairRows2\<close> (keep-last).
\<close>

definition repairRowsOf :: "violation list \<Rightarrow> row list \<Rightarrow> row list" where
  "repairRowsOf violations tableData =
     map snd (filter (\<lambda>(idx, row). int idx \<notin> rowIndicesOf (nullViolationsOf violations))
                (enumerate 0 tableData))"

definition repairRows1Of :: "violation list \<Rightarrow> row list \<Rightarrow> row list" where
  "repairRows1Of violations tableData =
     keepFirst (rowIndicesOf (nullViolationsOf violations))
       (js_Set (map v_col (duplicateViolationsOf violations))) Map.empty 0 tableData"

definition repairRows2Of :: "violation list \<Rightarrow> row list \<Rightarrow> row list" where
  "repairRows2Of violations tableData =
     keepLast (rowIndicesOf (nullViolationsOf violations))
       (js_Set (map v_col (duplicateViolationsOf violations))) tableData"

text \<open>
  A row sequence with the row of index \<open>d\<close> removed, and the violation kinds that depend
  on one row only: type mismatches, NOT NULL violations and the null/empty case of the
  primary key.
\<close>

definition removeAt :: "nat \<Rightarrow> 'a list \<Rightarrow> 'a list" where
  "removeAt d xs = take d xs @ drop (Suc d) xs"

definition spec_rowLocal :: "violation \<Rightarrow> bool" where
  "spec_rowLocal v =
     (v_type v = ''TYPE MISMATCH'' \<or> v_type v = ''NOT NULL''
      \<or> (v_type v = ''PRIMARY KEY'' \<and> v_msg v = ''Null/empty value''))"

text \<open>
  The filter-and-renumber step of \<open>updateViolationsAfterDelete\<close>, and the general shape
  of a pass that looks at each row on its own: where \<open>P\<close> holds of the row it emits the
  violation \<open>g\<close> builds from it, numbered with the row.
\<close>

definition shiftRows :: "int \<Rightarrow> violation list \<Rightarrow> violation list" where
  "shiftRows deleteIndex vs =
     map (\<lambda>violation. if v_row violation - 1 > deleteIndex
                       then violation\<lparr>v_row := v_row violation - 1\<rparr> else violation)
       (filter (\<lambda>violation. v_row violation - 1 \<noteq> deleteIndex) vs)"

definition localPass :: "(row \<Rightarrow> violation) \<Rightarrow> (row \<Rightarrow> bool) \<Rightarrow> nat \<Rightarrow> row list \<Rightarrow> violation list" where
  "localPass g P i rows =
     concat (map (\<lambda>(k, r). if P r then [(g r)\<lparr>v_row := int k + 1\<rparr>] else []) (enumerate i rows))"

text \<open>The value tuples of the surviving rows of a candidate.\<close>

definition valueTuples :: "repair_file \<Rightarrow> jsval list list" where
  "valueTuples cand = map Object_values (r_rows cand)"

text \<open>
  The null/empty and duplicate-value violations by kind: every PRIMARY KEY, UNIQUE and
  NOT NULL violation is one of the two, and no other violation is.
\<close>

definition spec_nullOrDuplicate :: "violation \<Rightarrow> bool" where
  "spec_nullOrDuplicate v =
     (v_type v = ''PRIMARY KEY'' \<or> v_type v = ''UNIQUE'' \<or> v_type v = ''NOT NULL'')"

text \<open>
  Deleting row \<open>d\<close> removes no first occurrence from column \<open>col\<close>: the value of the
  row there is null or empty, or occurs already in an earlier row (or in \<open>seen\<close>), or
  occurs in no later row.
\<close>

definition noFirstOccurrence :: "string \<Rightarrow> jsval set \<Rightarrow> row list \<Rightarrow> nat \<Rightarrow> bool" where
  "noFirstOccurrence col seen rows d =
     (d < length rows \<longrightarrow>
        isNullOrEmpty (get (rows ! d) col)
        \<or> get (rows ! d) col \<in> seen \<union> earlierValues rows col d
        \<or> get (rows ! d) col \<notin> (\<lambda>r. get r col) ` set (drop (Suc d) rows))"

text \<open>
  The violations \<open>checkViolations\<close> derives from the rows of the table: every kind but
  FOREIGN KEY, which it derives from the linked files.
\<close>

definition spec_fromTable :: "violation \<Rightarrow> bool" where
  "spec_fromTable v = (v_type v \<noteq> ''FOREIGN KEY'')"

text \<open>
  Row \<open>d\<close> holds no first occurrence, repeated later, in a column that is primary or
  unique.
\<close>

definition spec_noFirstOccurrenceDeleted :: "row list \<Rightarrow> string list list \<Rightarrow> nat \<Rightarrow> bool" where
  "spec_noFirstOccurrenceDeleted tableData confirmedConstraints d =
     (\<forall>idx < length (columnsOf tableData).
        ''primary'' \<in> set (constraintsAt confirmedConstraints idx)
        \<or> ''unique'' \<in> set (constraintsAt confirmedConstraints idx)
        \<longrightarrow> noFirstOccurrence (columnsOf tableData ! idx) {} tableData d)"

section \<open>Auxiliary facts about lists\<close>

subsection \<open>Loops with an index\<close>

lemma concat_map_if:
  "concat (map (\<lambda>x. if P x then [f x] else []) xs) = map f (filter P xs)"
  by (induction xs) auto

lemma enumerate_upt: "enumerate 0 xs = map (\<lambda>i. (i, xs ! i)) [0..<length xs]"
  by (rule nth_equalityI) (simp_all add: nth_enumerate_eq)

lemma forEach_index:
  "concat (map (\<lambda>(i, x). if P x then [f i x] else []) (enumerate 0 xs))
   = map (\<lambda>i. f i (xs ! i)) (filter (\<lambda>i. P (xs ! i)) [0..<length xs])"
proof -
  have "(\<lambda>(i, x). if P x then [f i x] else []) = (\<lambda>p. if P (snd p) then [f (fst p) (snd p)] else [])"
    by (auto simp: fun_eq_iff)
  then show ?thesis
    by (simp add: concat_map_if enumerate_upt filter_map comp_def)
qed

lemma forEach_index_rule:
  assumes "\<And>i x. g i x = (if P x then [f i x] else [])"
  shows "concat (map (\<lambda>(i, x). g i x) (enumerate 0 xs))
         = map (\<lambda>i. f i (xs ! i)) (filter (\<lambda>i. P (xs ! i)) [0..<length xs])"
  unfolding assms by (rule forEach_index)

section \<open>The type validator: proofs\<close>

lemma char_eq_code: "(x = y) = ((of_char x :: nat) = of_char y)"
  by simp

lemma isDigit_iff: "isDigit c \<longleftrightarrow> c \<in> set ''0123456789''"
  unfolding isDigit_def by (simp add: char_eq_code del: of_char_eq_iff) arith

lemma toLower_ascii:
  assumes "(of_char b :: nat) < 128"
  shows "toLowerCase_char a = b \<longleftrightarrow> asciiFold a = b"
proof -
  have "(of_char a :: nat) < 256" by simp
  then show ?thesis using assms
    unfolding toLowerCase_char_def asciiFold_def Let_def
    by (auto simp add: char_eq_code simp del: of_char_eq_iff)
qed

lemma matchesIntegerRegex_iff: "matchesIntegerRegex t \<longleftrightarrow> spec_integerText t"
proof (cases t)
  case Nil
  then show ?thesis by (simp add: spec_integerText_def)
next
  case (Cons c cs)
  show ?thesis
  proof (cases "c = CHR ''-''")
    case True
    have "spec_integerText (CHR ''-'' # cs) \<longleftrightarrow> cs \<noteq> [] \<and> list_all isDigit cs"
    proof
      assume "spec_integerText (CHR ''-'' # cs)"
      then obtain sign ds where h: "CHR ''-'' # cs = sign @ ds" "sign = [] \<or> sign = ''-''" "ds \<noteq> []"
        "\<forall>c \<in> set ds. isDigit c" unfolding spec_integerText_def isDigit_iff by blast
      have "sign \<noteq> []"
      proof
        assume "sign = []"
        then have "CHR ''-'' \<in> set ds" using h(1) by (metis append_Nil list.set_intros(1))
        then have "isDigit (CHR ''-'')" using h(4) by blast
        then show False by (simp add: isDigit_def)
      qed
      then have "sign = ''-''" using h(2) by blast
      then have "cs = ds" using h(1) by simp
      then show "cs \<noteq> [] \<and> list_all isDigit cs" using h(3,4) by (simp add: list_all_iff)
    next
      assume a: "cs \<noteq> [] \<and> list_all isDigit cs"
      show "spec_integerText (CHR ''-'' # cs)"
        unfolding spec_integerText_def isDigit_iff[symmetric]
        by (rule exI[of _ "''-''"], rule exI[of _ cs]) (use a in \<open>simp add: list_all_iff\<close>)
    qed
    then show ?thesis using Cons True by simp
  next
    case False
    have "spec_integerText (c # cs) \<longleftrightarrow> list_all isDigit (c # cs)"
    proof
      assume "spec_integerText (c # cs)"
      then obtain sign ds where h: "c # cs = sign @ ds" "sign = [] \<or> sign = ''-''" "ds \<noteq> []"
        "\<forall>c \<in> set ds. isDigit c" unfolding spec_integerText_def isDigit_iff by blast
      have "sign = []" using h(1,2) False by auto
      then show "list_all isDigit (c # cs)" using h(1,4) by (simp add: list_all_iff)
    next
      assume a: "list_all isDigit (c # cs)"
      show "spec_integerText (c # cs)"
        unfolding spec_integerText_def isDigit_iff[symmetric]
        by (rule exI[of _ "[]"], rule exI[of _ "c # cs"]) (use a in \<open>simp add: list_all_iff\<close>)
    qed
    then show ?thesis using Cons False by simp
  qed
qed


lemma toLowerCase_ascii_word:
  "\<forall>b \<in> set w. (of_char b :: nat) < 128 \<Longrightarrow> (map toLowerCase_char s = w) = (map asciiFold s = w)"
proof (induction s arbitrary: w)
  case Nil
  then show ?case by simp
next
  case (Cons a s)
  show ?case
  proof (cases w)
    case Nil
    then show ?thesis by simp
  next
    case (Cons b w')
    with Cons.prems have b: "(of_char b :: nat) < 128" and w': "\<forall>b \<in> set w'. (of_char b :: nat) < 128"
      by simp_all
    show ?thesis using Cons.IH[OF w'] toLower_ascii[OF b, of a] Cons by simp
  qed
qed

lemma booleanWords_ascii: "w \<in> set booleanWords \<Longrightarrow> \<forall>b \<in> set w. (of_char b :: nat) < 128"
  unfolding booleanWords_def by auto

lemma booleanWords_folded: "w \<in> set booleanWords \<Longrightarrow> map asciiFold w = w"
  unfolding booleanWords_def asciiFold_def by auto

lemma toLowerCase_boolean:
  "toLowerCase t \<in> set booleanWords \<longleftrightarrow> (\<exists>w \<in> set booleanWords. spec_sameIgnoringCase t w)"
proof -
  have "\<And>w. w \<in> set booleanWords \<Longrightarrow> (toLowerCase t = w) = spec_sameIgnoringCase t w"
    unfolding toLowerCase_def spec_sameIgnoringCase_def
    using toLowerCase_ascii_word[OF booleanWords_ascii] booleanWords_folded by simp
  then show ?thesis by blast
qed

text \<open>
  A number cell is validated through its \<open>String\<close> form. An integral number below
  \<open>10^21\<close> is written with its digits and is an INTEGER; from \<open>10^21\<close> on the form has
  an exponent, and a fraction has a point, so neither is.
\<close>

lemma js_String_number_forms:
  "js_String (JNum 12) = ''12'' \<and> js_String (JNum (- 12)) = ''-12''
   \<and> js_String (JNum (3 / 2)) = ''1.5'' \<and> js_String (JNum (10 ^ 21)) = ''1e+21''"
  by code_simp

lemma validateDataType_number_cells:
  "validateDataType h (JNum 12) ''INTEGER''
   \<and> \<not> validateDataType h (JNum (3 / 2)) ''INTEGER''
   \<and> \<not> validateDataType h (JNum (10 ^ 21)) ''INTEGER''"
  by code_simp

text \<open>
  C8. The validator is a total function of the value and the type name. It accepts every
  null or empty value and every value that trims to the empty text. On the other values:
  for INTEGER and BIGINT it accepts exactly the texts of the shape \<open>^-?\d+$\<close> whose
  integer parses to a finite number; for BOOLEAN exactly the texts that are, up to case,
  one of true, false, 1, 0, yes, no; for VARCHAR, TEXT, CHAR and every type name without
  a branch of its own it accepts everything.
\<close>

theorem validateDataType_spec:
  "(isNullOrEmpty v \<or> trim (js_String v) = [] \<longrightarrow> validateDataType h v sqlType)
   \<and> (\<not> isNullOrEmpty v \<and> trim (js_String v) \<noteq> [] \<longrightarrow>
        (toUpperCase sqlType \<in> {''INTEGER'', ''BIGINT''} \<longrightarrow>
           validateDataType h v sqlType
           = (spec_integerText (trim (js_String v)) \<and> isFiniteDouble (integerValue (trim (js_String v)))))
        \<and> (toUpperCase sqlType = ''BOOLEAN'' \<longrightarrow>
           validateDataType h v sqlType
           = (\<exists>w \<in> set booleanWords. spec_sameIgnoringCase (trim (js_String v)) w)))
   \<and> (toUpperCase sqlType \<in> {''VARCHAR'', ''TEXT'', ''CHAR''} \<or> toUpperCase sqlType \<notin> recognisedTypes
        \<longrightarrow> validateDataType h v sqlType)"
proof (intro conjI impI)
  assume "isNullOrEmpty v \<or> trim (js_String v) = []"
  then show "validateDataType h v sqlType"
    by (auto simp: validateDataType_def isNullOrEmpty_def Let_def)
next
  assume a: "\<not> isNullOrEmpty v \<and> trim (js_String v) \<noteq> []" and b: "toUpperCase sqlType \<in> {''INTEGER'', ''BIGINT''}"
  show "validateDataType h v sqlType
           = (spec_integerText (trim (js_String v)) \<and> isFiniteDouble (integerValue (trim (js_String v))))"
    using a b by (auto simp: validateDataType_def isNullOrEmpty_def Let_def isValidInteger_def matchesIntegerRegex_iff)
next
  assume a: "\<not> isNullOrEmpty v \<and> trim (js_String v) \<noteq> []" and b: "toUpperCase sqlType = ''BOOLEAN''"
  show "validateDataType h v sqlType = (\<exists>w \<in> set booleanWords. spec_sameIgnoringCase (trim (js_String v)) w)"
    unfolding toLowerCase_boolean[symmetric]
    using a b by (simp add: validateDataType_def isNullOrEmpty_def Let_def booleanWords_def)
next
  assume "toUpperCase sqlType \<in> {''VARCHAR'', ''TEXT'', ''CHAR''} \<or> toUpperCase sqlType \<notin> recognisedTypes"
  then show "validateDataType h v sqlType"
    by (auto simp: validateDataType_def Let_def recognisedTypes_def)
qed

theorem validateDataType_spec_witness:
  "\<not> isNullOrEmpty (JStr '' -12 '') \<and> trim (js_String (JStr '' -12 '')) \<noteq> []
   \<and> toUpperCase ''bigint'' \<in> {''INTEGER'', ''BIGINT''}
   \<and> validateDataType \<lparr>numberText = (\<lambda>_. False), dateText = (\<lambda>_. False)\<rparr> (JStr '' -12 '') ''bigint''
   \<and> spec_integerText ''-12'' \<and> isFiniteDouble (integerValue ''-12'')"
proof -
  have t: "trim (js_String (JStr '' -12 '')) = ''-12''" by code_simp
  have u: "toUpperCase ''bigint'' = ''BIGINT''" by code_simp
  have n: "\<not> isNullOrEmpty (JStr '' -12 '')" by (simp add: isNullOrEmpty_def)
  have v: "validateDataType \<lparr>numberText = (\<lambda>_. False), dateText = (\<lambda>_. False)\<rparr> (JStr '' -12 '') ''bigint''"
    by code_simp
  from validateDataType_spec[of "JStr '' -12 ''" "\<lparr>numberText = (\<lambda>_. False), dateText = (\<lambda>_. False)\<rparr>" "''bigint''"]
  show ?thesis unfolding t u using n v by simp
qed

section \<open>The foreign-key check: proofs\<close>

lemma spec_referencedKeys_code:
  "spec_referencedKeys primaryRows pkCol
   = set (map (\<lambda>row. trim (js_String (get row pkCol)))
            (filter (\<lambda>row. \<not> isNullOrEmpty (get row pkCol)) primaryRows))"
  by (auto simp: spec_referencedKeys_def)

text \<open>
  C7. With both row sequences present and both column names non-empty,
  \<open>checkForeignKeyViolations\<close> emits one FOREIGN KEY violation, on the foreign-key
  column, for exactly the referencing rows whose value in that column is non-empty and
  whose trimmed text is not in the referenced key set, in row order; a row with an empty
  value is never flagged. For the values 1, 9 and the empty string against the keys 1 and
  2 only the second row is flagged.
\<close>

theorem checkForeignKeyViolations_spec:
  assumes "fkCol \<noteq> []" and "pkCol \<noteq> []"
  shows "map v_row (checkForeignKeyViolations (Some foreignRows) (Some primaryRows) (Some fkCol) (Some pkCol))
         = map (\<lambda>i. int i + 1)
             (filter (\<lambda>i. spec_dangling primaryRows pkCol fkCol (foreignRows ! i)) [0..<length foreignRows])
       \<and> (\<forall>v \<in> set (checkForeignKeyViolations (Some foreignRows) (Some primaryRows) (Some fkCol) (Some pkCol)).
            v_type v = ''FOREIGN KEY'' \<and> v_col v = fkCol)"
proof -
  let ?mk = "\<lambda>i row. \<lparr>v_row = int i + 1, v_col = fkCol, v_type = ''FOREIGN KEY'',
                          v_msg = ''Value '' @ [quote] @ js_String (get row fkCol) @ [quote]
                                  @ '' not found in primary key column'',
                          v_value = Some (get row fkCol)\<rparr>"
  let ?g = "\<lambda>i row. let fkVal = get row fkCol in
                 if isNullOrEmpty fkVal then []
                 else let fkValStr = trim (js_String fkVal) in
                   if fkValStr \<notin> set (map (\<lambda>row. trim (js_String (get row pkCol)))
                                   (filter (\<lambda>row. \<not> isNullOrEmpty (get row pkCol)) primaryRows))
                   then [?mk i row] else []"
  have "checkForeignKeyViolations (Some foreignRows) (Some primaryRows) (Some fkCol) (Some pkCol)
        = concat (map (\<lambda>(i, row). ?g i row) (enumerate 0 foreignRows))"
    using assms by (simp add: checkForeignKeyViolations_def del: set_map set_filter)
  also have "\<dots> = map (\<lambda>i. ?mk i (foreignRows ! i))
         (filter (\<lambda>i. spec_dangling primaryRows pkCol fkCol (foreignRows ! i)) [0..<length foreignRows])"
    by (rule forEach_index_rule) (simp add: Let_def spec_dangling_def spec_referencedKeys_code)
  finally show ?thesis by (simp add: comp_def)
qed

theorem checkForeignKeyViolations_spec_witness:
  "''c'' \<noteq> [] \<and> ''k'' \<noteq> []
   \<and> map v_row (checkForeignKeyViolations
        (Some [[(''c'', JStr ''1'')], [(''c'', JStr ''9'')], [(''c'', JStr [])]])
        (Some [[(''k'', JStr ''1'')], [(''k'', JStr ''2'')]]) (Some ''c'') (Some ''k'')) = [2]
   \<and> map (\<lambda>i. int i + 1)
        (filter (\<lambda>i. spec_dangling [[(''k'', JStr ''1'')], [(''k'', JStr ''2'')]] ''k'' ''c''
                       ([[(''c'', JStr ''1'')], [(''c'', JStr ''9'')], [(''c'', JStr [])]] ! i))
           [0..<length [[(''c'', JStr ''1'')], [(''c'', JStr ''9'')], [(''c'', JStr [])]]]) = [2]"
proof -
  have a: "''c'' \<noteq> []" and b: "''k'' \<noteq> []" by simp_all
  have r: "map v_row (checkForeignKeyViolations
        (Some [[(''c'', JStr ''1'')], [(''c'', JStr ''9'')], [(''c'', JStr [])]])
        (Some [[(''k'', JStr ''1'')], [(''k'', JStr ''2'')]]) (Some ''c'') (Some ''k'')) = [2]"
    by code_simp
  note s = checkForeignKeyViolations_spec[OF a b,
      of "[[(''c'', JStr ''1'')], [(''c'', JStr ''9'')], [(''c'', JStr [])]]"
         "[[(''k'', JStr ''1'')], [(''k'', JStr ''2'')]]", THEN conjunct1]
  show ?thesis
    by (intro conjI a b r trans[OF s[symmetric] r])
qed

section \<open>Violation detection: proofs\<close>

subsection \<open>The passes in closed form\<close>

lemma upt_Suc_shift: "[0..<Suc n] = 0 # map Suc [0..<n]"
  by (simp add: upt_conv_Cons map_Suc_upt del: upt_Suc)

lemma earlierValues_0 [simp]: "earlierValues rows col 0 = {}"
  by (simp add: earlierValues_def)

lemma earlierValues_Suc [simp]:
  "earlierValues (row # rest) col (Suc k) = insert (get row col) (earlierValues rest col k)"
  by (simp add: earlierValues_def)

lemma primaryAt_shift:
  "primaryAt col seen i (row # rest) (Suc k)
   = primaryAt col (if isNullOrEmpty (get row col) then seen else insert (get row col) seen) (Suc i) rest k"
  by (auto simp: primaryAt_def)

lemma primaryPass_closed:
  "primaryPass col seen i rows = concat (map (primaryAt col seen i rows) [0..<length rows])"
proof (induction rows arbitrary: seen i)
  case Nil
  then show ?case by simp
next
  case (Cons row rest)
  have ins: "get row col \<in> seen \<Longrightarrow> insert (get row col) seen = seen"
    by (rule insert_absorb)
  show ?case
    unfolding length_Cons upt_Suc_shift
    by (auto simp add: Cons.IH comp_def primaryAt_shift ins isNullOrEmpty_def violationAt_def
          primaryAt_def[of col seen i "row # rest" 0] simp del: upt_Suc)
qed

lemma uniqueAt_shift:
  "uniqueAt col seen i (row # rest) (Suc k)
   = uniqueAt col (if isNullOrEmpty (get row col) then seen else insert (get row col) seen) (Suc i) rest k"
  by (auto simp: uniqueAt_def)

lemma uniquePass_closed:
  "uniquePass col seen i rows = concat (map (uniqueAt col seen i rows) [0..<length rows])"
proof (induction rows arbitrary: seen i)
  case Nil
  then show ?case by simp
next
  case (Cons row rest)
  have ins: "get row col \<in> seen \<Longrightarrow> insert (get row col) seen = seen"
    by (rule insert_absorb)
  show ?case
    unfolding length_Cons upt_Suc_shift
    by (auto simp add: Cons.IH comp_def uniqueAt_shift ins isNullOrEmpty_def violationAt_def
          uniqueAt_def[of col seen i "row # rest" 0] simp del: upt_Suc)
qed

lemma typePass_closed:
  "typePass h col dataType tableData
   = map (\<lambda>i. \<lparr>v_row = int i + 1, v_col = col, v_type = ''TYPE MISMATCH'',
                v_msg = ''Type mismatch: expected '' @ dataType @ '', got '' @ [dquote]
                        @ js_String (get (tableData ! i) col) @ [dquote],
                v_value = None\<rparr>)
       (filter (\<lambda>i. \<not> validateDataType h (get (tableData ! i) col) dataType) [0..<length tableData])"
  unfolding typePass_def
  by (rule forEach_index_rule) (simp add: Let_def)

lemma notnullPass_closed:
  "notnullPass col tableData
   = map (\<lambda>i. violationAt i col ''NOT NULL'' ''Null/empty value'')
       (filter (\<lambda>i. isNullOrEmpty (get (tableData ! i) col)) [0..<length tableData])"
  unfolding notnullPass_def
  by (rule forEach_index_rule) (simp add: Let_def isNullOrEmpty_def violationAt_def)


lemma in_earlierValues:
  assumes "i \<le> length tableData"
  shows "v \<in> earlierValues tableData col i \<longleftrightarrow> (\<exists>j<i. get (tableData ! j) col = v)"
proof
  assume "v \<in> earlierValues tableData col i"
  then obtain r where r: "r \<in> set (take i tableData)" and v: "get r col = v"
    unfolding earlierValues_def by blast
  from r obtain j where j: "j < length (take i tableData)" and rj: "take i tableData ! j = r"
    unfolding in_set_conv_nth by blast
  from j assms have "j < i" by simp
  moreover from this rj have "tableData ! j = r" by simp
  ultimately show "\<exists>j<i. get (tableData ! j) col = v" using v by blast
next
  assume "\<exists>j<i. get (tableData ! j) col = v"
  then obtain j where j: "j < i" and v: "get (tableData ! j) col = v" by blast
  from j assms have "j < length (take i tableData)" by simp
  then have "take i tableData ! j \<in> set (take i tableData)" by (rule nth_mem)
  with j have "tableData ! j \<in> set (take i tableData)" by simp
  then show "v \<in> earlierValues tableData col i" unfolding earlierValues_def using v by blast
qed

lemma checkViolations_set:
  assumes "tableData \<noteq> []" and "confirmedConstraints \<noteq> []"
  shows "set (checkViolations h tableData confirmedConstraints fileTables foreignKeyConfig confirmedTypes)
         = (\<Union>idx \<in> {..<length (columnsOf tableData)}.
              set (columnViolations h tableData confirmedConstraints confirmedTypes idx
                     (columnsOf tableData ! idx)))
           \<union> set (foreignKeyPass confirmedConstraints fileTables foreignKeyConfig)"
proof -
  obtain row0 rest where T: "tableData = row0 # rest" using assms(1) by (cases tableData) auto
  show ?thesis using assms unfolding checkViolations_def T
    by (auto simp: columnsOf_def enumerate_upt Let_def)
qed

lemma typePass_kind: "v \<in> set (typePass h col dataType tableData) \<Longrightarrow> v_type v = ''TYPE MISMATCH''"
  by (auto simp: typePass_closed)

lemma uniquePass_kind: "v \<in> set (uniquePass col seen i rows) \<Longrightarrow> v_type v = ''UNIQUE''"
  by (auto simp: uniquePass_closed uniqueAt_def violationAt_def split: if_splits)

lemma notnullPass_kind: "v \<in> set (notnullPass col tableData) \<Longrightarrow> v_type v = ''NOT NULL''"
  by (auto simp: notnullPass_closed violationAt_def)

lemma primaryPass_kind: "v \<in> set (primaryPass col seen i rows) \<Longrightarrow> v_type v = ''PRIMARY KEY'' \<and> v_col v = col"
  by (auto simp: primaryPass_closed primaryAt_def violationAt_def split: if_splits)

lemma foreignKeyPass_kind:
  "v \<in> set (foreignKeyPass confirmedConstraints fileTables foreignKeyConfig) \<Longrightarrow> v_type v = ''FOREIGN KEY''"
  by (auto simp: foreignKeyPass_def Let_def split: option.splits if_splits)

lemma primary_in_columnViolations:
  "v \<in> set (columnViolations h tableData confirmedConstraints confirmedTypes idx col) \<and> v_type v = ''PRIMARY KEY''
   \<longleftrightarrow> ''primary'' \<in> set (constraintsAt confirmedConstraints idx) \<and> v \<in> set (primaryPass col {} 0 tableData)"
  by (auto simp: columnViolations_def Let_def dest: typePass_kind uniquePass_kind notnullPass_kind primaryPass_kind)

lemma primary_in_checkViolations:
  assumes "tableData \<noteq> []" and "confirmedConstraints \<noteq> []"
  shows "v \<in> set (checkViolations h tableData confirmedConstraints fileTables foreignKeyConfig confirmedTypes)
           \<and> v_type v = ''PRIMARY KEY''
         \<longleftrightarrow> (\<exists>idx < length (columnsOf tableData).
                ''primary'' \<in> set (constraintsAt confirmedConstraints idx)
                \<and> v \<in> set (primaryPass (columnsOf tableData ! idx) {} 0 tableData))"
  unfolding checkViolations_set[OF assms]
  using primary_in_columnViolations[of v h tableData confirmedConstraints confirmedTypes]
  by (auto dest: foreignKeyPass_kind)

lemma in_primaryPass:
  "v \<in> set (primaryPass col {} 0 tableData) \<and> v_row v = int i + 1
   \<longleftrightarrow> i < length tableData
       \<and> (isNullOrEmpty (get (tableData ! i) col) \<or> get (tableData ! i) col \<in> earlierValues tableData col i)
       \<and> v = violationAt i col ''PRIMARY KEY''
               (if isNullOrEmpty (get (tableData ! i) col) then ''Null/empty value'' else ''Duplicate value'')"
  by (auto simp: primaryPass_closed primaryAt_def violationAt_def split: if_splits)

lemma spec_primaryKeyViolated_iff:
  "i < length tableData \<Longrightarrow>
   spec_primaryKeyViolated tableData col i
   \<longleftrightarrow> isNullOrEmpty (get (tableData ! i) col) \<or> get (tableData ! i) col \<in> earlierValues tableData col i"
  unfolding spec_primaryKeyViolated_def by (auto simp: in_earlierValues)

text \<open>
  C2. In a column that carries \<open>primary\<close>, \<open>checkViolations\<close> reports a PRIMARY KEY
  violation at row \<open>i\<close> exactly when the value there is null or empty, or equals the
  non-null value of an earlier row of that column; the message is "Null/empty value" in
  the first case and "Duplicate value" in the second.
\<close>

theorem checkViolations_primary_key:
  assumes "idx < length (columnsOf tableData)"
    and "''primary'' \<in> set (constraintsAt confirmedConstraints idx)"
    and "col = columnsOf tableData ! idx"
  shows "((\<exists>v \<in> set (checkViolations h tableData confirmedConstraints fileTables foreignKeyConfig confirmedTypes).
            v_type v = ''PRIMARY KEY'' \<and> v_col v = col \<and> v_row v = int i + 1)
          \<longleftrightarrow> (i < length tableData \<and> spec_primaryKeyViolated tableData col i))
       \<and> (\<forall>v \<in> set (checkViolations h tableData confirmedConstraints fileTables foreignKeyConfig confirmedTypes).
            v_type v = ''PRIMARY KEY'' \<and> v_col v = col \<and> v_row v = int i + 1
            \<longrightarrow> v_msg v = (if isNullOrEmpty (get (tableData ! i) col) then ''Null/empty value''
                            else ''Duplicate value''))"
proof -
  have T: "tableData \<noteq> []" using assms(1) by (auto simp: columnsOf_def)
  have C: "confirmedConstraints \<noteq> []" using assms(2) by (auto simp: constraintsAt_def)
  let ?V = "set (checkViolations h tableData confirmedConstraints fileTables foreignKeyConfig confirmedTypes)"
  let ?R = "\<lambda>v. i < length tableData
            \<and> (isNullOrEmpty (get (tableData ! i) col) \<or> get (tableData ! i) col \<in> earlierValues tableData col i)
            \<and> v = violationAt i col ''PRIMARY KEY''
               (if isNullOrEmpty (get (tableData ! i) col) then ''Null/empty value'' else ''Duplicate value'')"
  have char: "v \<in> ?V \<and> v_type v = ''PRIMARY KEY'' \<and> v_col v = col \<and> v_row v = int i + 1 \<longleftrightarrow> ?R v" for v
  proof -
    have "v \<in> ?V \<and> v_type v = ''PRIMARY KEY'' \<and> v_col v = col \<and> v_row v = int i + 1
       \<longleftrightarrow> (\<exists>idx' < length (columnsOf tableData).
                ''primary'' \<in> set (constraintsAt confirmedConstraints idx')
                \<and> v \<in> set (primaryPass (columnsOf tableData ! idx') {} 0 tableData))
            \<and> v_col v = col \<and> v_row v = int i + 1"
      using primary_in_checkViolations[OF T C, of v h fileTables foreignKeyConfig confirmedTypes] by blast
    also have "\<dots> \<longleftrightarrow> v \<in> set (primaryPass col {} 0 tableData) \<and> v_row v = int i + 1"
    proof
      assume a: "(\<exists>idx' < length (columnsOf tableData).
                ''primary'' \<in> set (constraintsAt confirmedConstraints idx')
                \<and> v \<in> set (primaryPass (columnsOf tableData ! idx') {} 0 tableData))
            \<and> v_col v = col \<and> v_row v = int i + 1"
      then obtain idx' where "v \<in> set (primaryPass (columnsOf tableData ! idx') {} 0 tableData)" by blast
      moreover from this have "v_col v = columnsOf tableData ! idx'" using primaryPass_kind by blast
      ultimately show "v \<in> set (primaryPass col {} 0 tableData) \<and> v_row v = int i + 1"
        using a by simp
    next
      assume a: "v \<in> set (primaryPass col {} 0 tableData) \<and> v_row v = int i + 1"
      then have "v_col v = col" using primaryPass_kind by blast
      with a assms show "(\<exists>idx' < length (columnsOf tableData).
                ''primary'' \<in> set (constraintsAt confirmedConstraints idx')
                \<and> v \<in> set (primaryPass (columnsOf tableData ! idx') {} 0 tableData))
            \<and> v_col v = col \<and> v_row v = int i + 1" by blast
    qed
    finally show ?thesis unfolding in_primaryPass .
  qed
  have one: "(\<exists>v \<in> ?V. v_type v = ''PRIMARY KEY'' \<and> v_col v = col \<and> v_row v = int i + 1)
         \<longleftrightarrow> (i < length tableData \<and> spec_primaryKeyViolated tableData col i)"
    using char spec_primaryKeyViolated_iff[of i tableData col] by blast
  have two: "\<forall>v \<in> ?V. v_type v = ''PRIMARY KEY'' \<and> v_col v = col \<and> v_row v = int i + 1
            \<longrightarrow> v_msg v = (if isNullOrEmpty (get (tableData ! i) col) then ''Null/empty value''
                            else ''Duplicate value'')"
  proof (intro ballI impI)
    fix v assume "v \<in> ?V" and "v_type v = ''PRIMARY KEY'' \<and> v_col v = col \<and> v_row v = int i + 1"
    then have "?R v" using char[of v] by blast
    then show "v_msg v = (if isNullOrEmpty (get (tableData ! i) col) then ''Null/empty value''
                            else ''Duplicate value'')"
      by (simp add: violationAt_def)
  qed
  from one two show ?thesis by blast
qed


lemma in_checkViolations:
  assumes "tableData \<noteq> []" and "confirmedConstraints \<noteq> []"
  shows "v \<in> set (checkViolations h tableData confirmedConstraints fileTables foreignKeyConfig confirmedTypes)
         \<longleftrightarrow> (\<exists>idx < length (columnsOf tableData).
                v \<in> set (typePass h (columnsOf tableData ! idx) (dataTypeAt confirmedTypes idx) tableData)
                \<or> (''primary'' \<in> set (constraintsAt confirmedConstraints idx)
                    \<and> v \<in> set (primaryPass (columnsOf tableData ! idx) {} 0 tableData))
                \<or> (''unique'' \<in> set (constraintsAt confirmedConstraints idx)
                    \<and> v \<in> set (uniquePass (columnsOf tableData ! idx) {} 0 tableData))
                \<or> (''notnull'' \<in> set (constraintsAt confirmedConstraints idx)
                    \<and> v \<in> set (notnullPass (columnsOf tableData ! idx) tableData)))
             \<or> v \<in> set (foreignKeyPass confirmedConstraints fileTables foreignKeyConfig)"
  unfolding checkViolations_set[OF assms] columnViolations_def Let_def
  by (auto split: if_splits)

lemma in_primaryPass_iff:
  "v \<in> set (primaryPass col {} 0 tableData)
   \<longleftrightarrow> (\<exists>i < length tableData.
          (isNullOrEmpty (get (tableData ! i) col) \<or> get (tableData ! i) col \<in> earlierValues tableData col i)
          \<and> v = violationAt i col ''PRIMARY KEY''
                 (if isNullOrEmpty (get (tableData ! i) col) then ''Null/empty value'' else ''Duplicate value''))"
proof -
  have "v \<in> set (primaryPass col {} 0 tableData)
        \<longleftrightarrow> (\<exists>i < length tableData. v \<in> set (primaryAt col {} 0 tableData i))"
    by (auto simp: primaryPass_closed)
  also have "\<dots> \<longleftrightarrow> (\<exists>i < length tableData.
          (isNullOrEmpty (get (tableData ! i) col) \<or> get (tableData ! i) col \<in> earlierValues tableData col i)
          \<and> v = violationAt i col ''PRIMARY KEY''
                 (if isNullOrEmpty (get (tableData ! i) col) then ''Null/empty value'' else ''Duplicate value''))"
  proof (intro iff_exI conj_cong refl)
    fix i
    show "v \<in> set (primaryAt col {} 0 tableData i)
       \<longleftrightarrow> (isNullOrEmpty (get (tableData ! i) col) \<or> get (tableData ! i) col \<in> earlierValues tableData col i)
          \<and> v = violationAt i col ''PRIMARY KEY''
                 (if isNullOrEmpty (get (tableData ! i) col) then ''Null/empty value'' else ''Duplicate value'')"
      by (cases "isNullOrEmpty (get (tableData ! i) col)") (auto simp add: primaryAt_def)
  qed
  finally show ?thesis .
qed

lemma in_uniquePass_iff:
  "v \<in> set (uniquePass col {} 0 tableData)
   \<longleftrightarrow> (\<exists>i < length tableData.
          \<not> isNullOrEmpty (get (tableData ! i) col) \<and> get (tableData ! i) col \<in> earlierValues tableData col i
          \<and> v = violationAt i col ''UNIQUE'' ''Duplicate value'')"
  by (auto simp: uniquePass_closed uniqueAt_def violationAt_def split: if_splits)

lemma in_notnullPass_iff:
  "v \<in> set (notnullPass col tableData)
   \<longleftrightarrow> (\<exists>i < length tableData.
          isNullOrEmpty (get (tableData ! i) col) \<and> v = violationAt i col ''NOT NULL'' ''Null/empty value'')"
  by (auto simp: notnullPass_closed violationAt_def)

lemma typePass_msg: "v \<in> set (typePass h col dataType tableData) \<Longrightarrow> v_msg v \<noteq> ''Duplicate value''"
  by (auto simp: typePass_closed)

lemma foreignKeyPass_msg:
  "v \<in> set (foreignKeyPass confirmedConstraints fileTables foreignKeyConfig) \<Longrightarrow> v_msg v \<noteq> ''Duplicate value''"
  by (auto simp: foreignKeyPass_def Let_def split: option.splits if_splits)

lemma duplicate_in_checkViolations:
  assumes v: "v \<in> set (checkViolations h tableData confirmedConstraints fileTables foreignKeyConfig confirmedTypes)"
    and m: "v_msg v = ''Duplicate value''"
  shows "\<exists>i j. j < i \<and> i < length tableData \<and> v_row v = int i + 1
           \<and> \<not> isNullOrEmpty (get (tableData ! i) (v_col v))
           \<and> get (tableData ! j) (v_col v) = get (tableData ! i) (v_col v)
           \<and> (v_type v = ''PRIMARY KEY'' \<or> v_type v = ''UNIQUE'')"
proof -
  have T: "tableData \<noteq> []" and C: "confirmedConstraints \<noteq> []"
    using v by (auto simp: checkViolations_def split: if_splits)
  from v[unfolded in_checkViolations[OF T C]] m
  obtain col where "v \<in> set (primaryPass col {} 0 tableData) \<or> v \<in> set (uniquePass col {} 0 tableData)"
    using typePass_msg foreignKeyPass_msg
    by (auto simp: in_notnullPass_iff violationAt_def)
  then obtain i where i: "i < length tableData" "\<not> isNullOrEmpty (get (tableData ! i) col)"
      "get (tableData ! i) col \<in> earlierValues tableData col i"
      "v = violationAt i col ''PRIMARY KEY'' ''Duplicate value'' \<or> v = violationAt i col ''UNIQUE'' ''Duplicate value''"
    using m unfolding in_primaryPass_iff in_uniquePass_iff
    by (auto simp: violationAt_def split: if_splits)
  from i(1,3) obtain j where "j < i" "get (tableData ! j) col = get (tableData ! i) col"
    using in_earlierValues[of i tableData] by auto
  with i show ?thesis by (auto simp: violationAt_def)
qed

theorem checkViolations_primary_key_witness:
  "0 < length (columnsOf [[(''id'', JNum 1), (''a'', JStr ''x'')], [(''id'', JNum 1), (''a'', JStr ''y'')],
                           [(''id'', JNum 2), (''a'', JStr ''z'')]])
   \<and> ''primary'' \<in> set (constraintsAt [[''primary''], []] 0)
   \<and> spec_primaryKeyViolated [[(''id'', JNum 1), (''a'', JStr ''x'')], [(''id'', JNum 1), (''a'', JStr ''y'')],
                               [(''id'', JNum 2), (''a'', JStr ''z'')]] ''id'' 1
   \<and> (\<exists>v \<in> set (checkViolations \<lparr>numberText = (\<lambda>_. False), dateText = (\<lambda>_. False)\<rparr>
                      [[(''id'', JNum 1), (''a'', JStr ''x'')], [(''id'', JNum 1), (''a'', JStr ''y'')],
                       [(''id'', JNum 2), (''a'', JStr ''z'')]]
                      [[''primary''], []] Map.empty None []).
          v_type v = ''PRIMARY KEY'' \<and> v_col v = ''id'' \<and> v_row v = 2 \<and> v_msg v = ''Duplicate value'')"
proof -
  let ?T = "[[(''id'', JNum 1), (''a'', JStr ''x'')], [(''id'', JNum 1), (''a'', JStr ''y'')],
             [(''id'', JNum 2), (''a'', JStr ''z'')]]"
  have a: "0 < length (columnsOf ?T)" by (simp add: columnsOf_def Object_keys_def)
  have b: "''primary'' \<in> set (constraintsAt [[''primary''], []] 0)" by (simp add: constraintsAt_def)
  have c: "''id'' = columnsOf ?T ! 0" by (simp add: columnsOf_def Object_keys_def)
  have d: "spec_primaryKeyViolated ?T ''id'' 1"
    unfolding spec_primaryKeyViolated_def by (simp add: get_def isNullOrEmpty_def)
  have e: "\<not> isNullOrEmpty (get (?T ! 1) ''id'')" by (simp add: get_def isNullOrEmpty_def)
  note s = checkViolations_primary_key[OF a b c,
      of "\<lparr>numberText = (\<lambda>_. False), dateText = (\<lambda>_. False)\<rparr>" Map.empty None "[]" 1]
  from s d have "\<exists>v \<in> set (checkViolations \<lparr>numberText = (\<lambda>_. False), dateText = (\<lambda>_. False)\<rparr>
                      ?T [[''primary''], []] Map.empty None []).
          v_type v = ''PRIMARY KEY'' \<and> v_col v = ''id'' \<and> v_row v = int 1 + 1" by simp
  then obtain v where v: "v \<in> set (checkViolations \<lparr>numberText = (\<lambda>_. False), dateText = (\<lambda>_. False)\<rparr>
                      ?T [[''primary''], []] Map.empty None [])"
      "v_type v = ''PRIMARY KEY'' \<and> v_col v = ''id'' \<and> v_row v = int 1 + 1" by blast
  with s e have "v_msg v = ''Duplicate value''" by auto
  with v have "\<exists>v \<in> set (checkViolations \<lparr>numberText = (\<lambda>_. False), dateText = (\<lambda>_. False)\<rparr>
                      ?T [[''primary''], []] Map.empty None []).
          v_type v = ''PRIMARY KEY'' \<and> v_col v = ''id'' \<and> v_row v = 2 \<and> v_msg v = ''Duplicate value''"
    by auto
  with a b d show ?thesis by blast
qed

text \<open>
  C10. A "Duplicate value" violation, of the PRIMARY KEY or the UNIQUE kind, is reported
  at a row only if an earlier row holds the identical non-empty value in that column: the
  values are compared as they are, without conversion or trimming. The number 1, the
  string 1 and the string 1 with a leading blank in one column are no duplicates of each
  other.
\<close>

theorem duplicates_by_identity:
  "(\<forall>v \<in> set (checkViolations h tableData confirmedConstraints fileTables foreignKeyConfig confirmedTypes).
      v_msg v = ''Duplicate value'' \<longrightarrow>
      (\<exists>i j. j < i \<and> i < length tableData \<and> v_row v = int i + 1
             \<and> \<not> isNullOrEmpty (get (tableData ! i) (v_col v))
             \<and> get (tableData ! j) (v_col v) = get (tableData ! i) (v_col v)
             \<and> (v_type v = ''PRIMARY KEY'' \<or> v_type v = ''UNIQUE'')))
   \<and> (\<forall>v \<in> set (checkViolations h [[(c, JNum 1)], [(c, JStr ''1'')], [(c, JStr '' 1'')]]
                     confirmedConstraints fileTables foreignKeyConfig confirmedTypes).
        v_msg v \<noteq> ''Duplicate value'')"
proof (intro conjI ballI impI)
  fix v
  assume "v \<in> set (checkViolations h tableData confirmedConstraints fileTables foreignKeyConfig confirmedTypes)"
    and "v_msg v = ''Duplicate value''"
  then show "\<exists>i j. j < i \<and> i < length tableData \<and> v_row v = int i + 1
             \<and> \<not> isNullOrEmpty (get (tableData ! i) (v_col v))
             \<and> get (tableData ! j) (v_col v) = get (tableData ! i) (v_col v)
             \<and> (v_type v = ''PRIMARY KEY'' \<or> v_type v = ''UNIQUE'')"
    by (rule duplicate_in_checkViolations)
next
  fix v
  let ?T = "[[(c, JNum 1)], [(c, JStr ''1'')], [(c, JStr '' 1'')]]"
  assume v: "v \<in> set (checkViolations h ?T confirmedConstraints fileTables foreignKeyConfig confirmedTypes)"
  show "v_msg v \<noteq> ''Duplicate value''"
  proof
    assume "v_msg v = ''Duplicate value''"
    from duplicate_in_checkViolations[OF v this]
    obtain i j where ij: "j < i" "i < 3" "\<not> isNullOrEmpty (get (?T ! i) (v_col v))"
        "get (?T ! j) (v_col v) = get (?T ! i) (v_col v)" by auto
    from ij(1,2) consider "i = 1 \<and> j = 0" | "i = 2 \<and> j = 0" | "i = 2 \<and> j = 1" by linarith
    then show False using ij(3,4)
      by cases (auto simp: get_def isNullOrEmpty_def split: if_splits)
  qed
qed

theorem duplicates_by_identity_witness:
  "\<lparr>v_row = 2, v_col = ''id'', v_type = ''PRIMARY KEY'', v_msg = ''Duplicate value'', v_value = None\<rparr>
     \<in> set (checkViolations \<lparr>numberText = (\<lambda>_. False), dateText = (\<lambda>_. False)\<rparr>
              [[(''id'', JNum 1)], [(''id'', JNum 1)]] [[''primary'']] Map.empty None [])
   \<and> (\<exists>i j. j < i \<and> i < length [[(''id'', JNum 1)], [(''id'', JNum 1)]] \<and> (2::int) = int i + 1
         \<and> get ([[(''id'', JNum 1)], [(''id'', JNum 1)]] ! j) ''id''
           = get ([[(''id'', JNum 1)], [(''id'', JNum 1)]] ! i) ''id'')
   \<and> checkViolations \<lparr>numberText = (\<lambda>_. False), dateText = (\<lambda>_. False)\<rparr>
        [[(''id'', JNum 1)], [(''id'', JStr ''1'')], [(''id'', JStr '' 1'')]]
        [[''primary'', ''unique'']] Map.empty None [] = []"
proof -
  let ?v = "\<lparr>v_row = 2, v_col = ''id'', v_type = ''PRIMARY KEY'', v_msg = ''Duplicate value'', v_value = None\<rparr>"
  have m: "?v \<in> set (checkViolations \<lparr>numberText = (\<lambda>_. False), dateText = (\<lambda>_. False)\<rparr>
              [[(''id'', JNum 1)], [(''id'', JNum 1)]] [[''primary'']] Map.empty None [])"
    by code_simp
  have n: "checkViolations \<lparr>numberText = (\<lambda>_. False), dateText = (\<lambda>_. False)\<rparr>
        [[(''id'', JNum 1)], [(''id'', JStr ''1'')], [(''id'', JStr '' 1'')]]
        [[''primary'', ''unique'']] Map.empty None [] = []"
    by code_simp
  from duplicates_by_identity[of "\<lparr>numberText = (\<lambda>_. False), dateText = (\<lambda>_. False)\<rparr>"
      "[[(''id'', JNum 1)], [(''id'', JNum 1)]]" "[[''primary'']]" Map.empty None "[]", THEN conjunct1, rule_format, OF m]
  have "\<exists>i j. j < i \<and> i < length [[(''id'', JNum 1)], [(''id'', JNum 1)]] \<and> (2::int) = int i + 1
         \<and> get ([[(''id'', JNum 1)], [(''id'', JNum 1)]] ! j) ''id''
           = get ([[(''id'', JNum 1)], [(''id'', JNum 1)]] ! i) ''id''"
    by auto
  with m n show ?thesis by blast
qed

section \<open>Position tracking: proofs\<close>

lemma updateViolationsAfterDelete_shiftRows:
  "updateViolationsAfterDelete (Some vs) d = shiftRows d vs"
  by (simp add: updateViolationsAfterDelete_def shiftRows_def)

lemma shiftRows_append: "shiftRows d (xs @ ys) = shiftRows d xs @ shiftRows d ys"
  by (simp add: shiftRows_def)

lemma shiftRows_concat: "shiftRows d (concat xss) = concat (map (shiftRows d) xss)"
  by (induction xss) (simp_all add: shiftRows_append, simp add: shiftRows_def)

lemma removeAt_Nil [simp]: "removeAt d [] = []"
  by (simp add: removeAt_def)

lemma removeAt_0 [simp]: "removeAt 0 (x # xs) = xs"
  by (simp add: removeAt_def)

lemma removeAt_Suc [simp]: "removeAt (Suc d) (x # xs) = x # removeAt d xs"
  by (simp add: removeAt_def)

lemma localPass_Nil [simp]: "localPass g P i [] = []"
  by (simp add: localPass_def)

lemma localPass_Cons:
  "localPass g P i (r # rest)
   = (if P r then [(g r)\<lparr>v_row := int i + 1\<rparr>] else []) @ localPass g P (Suc i) rest"
  by (simp add: localPass_def)

lemma shiftRows_localPass_later:
  "i \<le> j \<Longrightarrow> shiftRows (int i) (localPass g P (Suc j) rows) = localPass g P j rows"
proof (induction rows arbitrary: j)
  case Nil
  then show ?case by (simp add: shiftRows_def)
next
  case (Cons r rest)
  have "shiftRows (int i) (localPass g P (Suc (Suc j)) rest) = localPass g P (Suc j) rest"
    using Cons.IH[of "Suc j"] Cons.prems by simp
  then show ?case
    using Cons.prems by (simp add: localPass_Cons[of g P "Suc j"] localPass_Cons[of g P j] shiftRows_append)
      (simp add: shiftRows_def)
qed

lemma shiftRows_localPass:
  "shiftRows (int (i + d)) (localPass g P i rows) = localPass g P i (removeAt d rows)"
proof (induction rows arbitrary: i d)
  case Nil
  then show ?case by (simp add: shiftRows_def)
next
  case (Cons r rest)
  show ?case
  proof (cases d)
    case 0
    have "shiftRows (int i) (localPass g P (Suc i) rest) = localPass g P i rest"
      by (rule shiftRows_localPass_later) simp
    then show ?thesis
      using 0 by (simp add: localPass_Cons shiftRows_append) (simp add: shiftRows_def)
  next
    case (Suc d')
    have "shiftRows (int (Suc i + d')) (localPass g P (Suc i) rest)
          = localPass g P (Suc i) (removeAt d' rest)"
      by (rule Cons.IH)
    then show ?thesis
      using Suc by (simp add: localPass_Cons shiftRows_append) (simp add: shiftRows_def)
  qed
qed

lemma typePass_localPass:
  "typePass h col dataType tableData
   = localPass (\<lambda>r. \<lparr>v_row = 0, v_col = col, v_type = ''TYPE MISMATCH'',
                       v_msg = ''Type mismatch: expected '' @ dataType @ '', got '' @ [dquote]
                               @ js_String (get r col) @ [dquote],
                       v_value = None\<rparr>)
       (\<lambda>r. \<not> validateDataType h (get r col) dataType) 0 tableData"
  unfolding typePass_def localPass_def
  by (intro arg_cong[where f = concat] map_cong refl) (auto simp: Let_def)

lemma notnullPass_localPass:
  "notnullPass col tableData
   = localPass (\<lambda>r. \<lparr>v_row = 0, v_col = col, v_type = ''NOT NULL'',
                       v_msg = ''Null/empty value'', v_value = None\<rparr>)
       (\<lambda>r. isNullOrEmpty (get r col)) 0 tableData"
  unfolding notnullPass_def localPass_def
  by (intro arg_cong[where f = concat] map_cong refl) (auto simp: Let_def isNullOrEmpty_def)

lemma primaryPass_rowLocal:
  "filter spec_rowLocal (primaryPass col seen i rows)
   = localPass (\<lambda>r. \<lparr>v_row = 0, v_col = col, v_type = ''PRIMARY KEY'',
                       v_msg = ''Null/empty value'', v_value = None\<rparr>)
       (\<lambda>r. isNullOrEmpty (get r col)) i rows"
  by (induction rows arbitrary: seen i)
     (auto simp: localPass_Cons Let_def isNullOrEmpty_def spec_rowLocal_def)

lemma uniquePass_rowLocal: "filter spec_rowLocal (uniquePass col seen i rows) = []"
  by (induction rows arbitrary: seen i) (auto simp: Let_def spec_rowLocal_def)

lemma localPass_kind:
  "spec_rowLocal (g undefined) \<Longrightarrow> (\<And>r. v_type (g r) = v_type (g undefined) \<and> v_msg (g r) = v_msg (g undefined))
   \<Longrightarrow> filter spec_rowLocal (localPass g P i rows) = localPass g P i rows"
  by (induction rows arbitrary: i) (auto simp: localPass_Cons spec_rowLocal_def)

lemma filter_shiftRows:
  "filter spec_rowLocal (shiftRows d vs) = shiftRows d (filter spec_rowLocal vs)"
  by (induction vs) (auto simp: shiftRows_def spec_rowLocal_def)

lemma foreignKeyPass_rowLocal:
  "filter spec_rowLocal (foreignKeyPass confirmedConstraints fileTables foreignKeyConfig) = []"
  by (auto simp: filter_empty_conv spec_rowLocal_def dest: foreignKeyPass_kind)

lemma typePass_all_rowLocal: "filter spec_rowLocal (typePass h col dataType tableData) = typePass h col dataType tableData"
  by (auto simp: filter_id_conv spec_rowLocal_def dest: typePass_kind)

lemma notnullPass_all_rowLocal: "filter spec_rowLocal (notnullPass col tableData) = notnullPass col tableData"
  by (auto simp: filter_id_conv spec_rowLocal_def dest: notnullPass_kind)

lemma shiftRows_typePass:
  "shiftRows (int d) (typePass h col dataType tableData) = typePass h col dataType (removeAt d tableData)"
  unfolding typePass_localPass using shiftRows_localPass[of 0 d] by simp

lemma shiftRows_notnullPass:
  "shiftRows (int d) (notnullPass col tableData) = notnullPass col (removeAt d tableData)"
  unfolding notnullPass_localPass using shiftRows_localPass[of 0 d] by simp

lemma shiftRows_primaryPass:
  "shiftRows (int d) (filter spec_rowLocal (primaryPass col {} 0 tableData))
   = filter spec_rowLocal (primaryPass col {} 0 (removeAt d tableData))"
  unfolding primaryPass_rowLocal using shiftRows_localPass[of 0 d] by simp

lemma shiftRows_Nil [simp]: "shiftRows d [] = []"
  by (simp add: shiftRows_def)

lemma columnViolations_after_delete:
  "filter spec_rowLocal (shiftRows (int d) (columnViolations h tableData confirmedConstraints confirmedTypes idx col))
   = filter spec_rowLocal (columnViolations h (removeAt d tableData) confirmedConstraints confirmedTypes idx col)"
  unfolding filter_shiftRows columnViolations_def Let_def
  by (simp add: shiftRows_append typePass_all_rowLocal notnullPass_all_rowLocal uniquePass_rowLocal
        shiftRows_typePass shiftRows_notnullPass shiftRows_primaryPass)

lemma columnViolations_no_rows:
  "columnViolations h [] confirmedConstraints confirmedTypes idx col = []"
  by (simp add: columnViolations_def typePass_def notnullPass_def Let_def)

lemma columnsOf_removeAt:
  assumes "wellFormedTable tableData" and "removeAt d tableData \<noteq> []"
  shows "columnsOf (removeAt d tableData) = columnsOf tableData"
proof -
  from assms(2) obtain r rest where r: "removeAt d tableData = r # rest"
    by (cases "removeAt d tableData") auto
  then have "r \<in> set (removeAt d tableData)" by simp
  then have "r \<in> set tableData"
    unfolding removeAt_def by (auto dest: in_set_takeD in_set_dropD)
  then have "Object_keys r = columnsOf tableData" using assms(1) by (simp add: wellFormedTable_def)
  then show ?thesis using r by (simp add: columnsOf_def)
qed

lemma primaryPass_insert_absent:
  "x \<notin> (\<lambda>r. get r col) ` set rows \<Longrightarrow> primaryPass col (insert x seen) i rows = primaryPass col seen i rows"
proof (induction rows arbitrary: seen i)
  case Nil
  then show ?case by simp
next
  case (Cons row rest)
  then have ne: "get row col \<noteq> x" and r: "x \<notin> (\<lambda>r. get r col) ` set rest" by auto
  have c: "insert (get row col) (insert x seen) = insert x (insert (get row col) seen)" by auto
  show ?case using ne Cons.IH[OF r] by (simp add: Let_def c)
qed

lemma uniquePass_insert_absent:
  "x \<notin> (\<lambda>r. get r col) ` set rows \<Longrightarrow> uniquePass col (insert x seen) i rows = uniquePass col seen i rows"
proof (induction rows arbitrary: seen i)
  case Nil
  then show ?case by simp
next
  case (Cons row rest)
  then have ne: "get row col \<noteq> x" and r: "x \<notin> (\<lambda>r. get r col) ` set rest" by auto
  have c: "insert (get row col) (insert x seen) = insert x (insert (get row col) seen)" by auto
  show ?case using ne Cons.IH[OF r] by (simp add: Let_def c)
qed

lemma shiftRows_Cons_later:
  "int i < v_row v - 1 \<Longrightarrow> shiftRows (int i) (v # vs) = v\<lparr>v_row := v_row v - 1\<rparr> # shiftRows (int i) vs"
  by (simp add: shiftRows_def)

lemma shiftRows_Cons_earlier:
  "v_row v - 1 < d \<Longrightarrow> shiftRows d (v # vs) = v # shiftRows d vs"
  by (simp add: shiftRows_def)

lemma shiftRows_Cons_same:
  "v_row v - 1 = d \<Longrightarrow> shiftRows d (v # vs) = shiftRows d vs"
  by (simp add: shiftRows_def)

lemma shiftRows_primaryPass_later:
  "i \<le> j \<Longrightarrow> shiftRows (int i) (primaryPass col seen (Suc j) rows) = primaryPass col seen j rows"
  by (induction rows arbitrary: seen j) (simp_all add: Let_def shiftRows_Cons_later)

lemma shiftRows_uniquePass_later:
  "i \<le> j \<Longrightarrow> shiftRows (int i) (uniquePass col seen (Suc j) rows) = uniquePass col seen j rows"
  by (induction rows arbitrary: seen j) (simp_all add: Let_def shiftRows_Cons_later)

lemma noFirstOccurrence_0:
  "noFirstOccurrence col seen (row # rest) 0
   \<longleftrightarrow> isNullOrEmpty (get row col) \<or> get row col \<in> seen \<or> get row col \<notin> (\<lambda>r. get r col) ` set rest"
  by (simp add: noFirstOccurrence_def)

lemma noFirstOccurrence_Suc:
  "noFirstOccurrence col seen (row # rest) (Suc d)
   \<Longrightarrow> noFirstOccurrence col (if isNullOrEmpty (get row col) then seen else insert (get row col) seen) rest d"
  by (auto simp: noFirstOccurrence_def)

lemma shiftRows_primaryPass_full:
  "noFirstOccurrence col seen rows d
   \<Longrightarrow> shiftRows (int (i + d)) (primaryPass col seen i rows) = primaryPass col seen i (removeAt d rows)"
proof (induction rows arbitrary: seen i d)
  case Nil
  then show ?case by simp
next
  case (Cons row rest)
  show ?case
  proof (cases d)
    case 0
    from Cons.prems[unfolded 0 noFirstOccurrence_0]
    consider (empty) "isNullOrEmpty (get row col)"
      | (seen) "\<not> isNullOrEmpty (get row col)" "get row col \<in> seen"
      | (absent) "\<not> isNullOrEmpty (get row col)" "get row col \<notin> seen"
          "get row col \<notin> (\<lambda>r. get r col) ` set rest"
      by blast
    then show ?thesis
    proof cases
      case empty
      then show ?thesis using 0
        by (simp add: Let_def isNullOrEmpty_def shiftRows_Cons_same shiftRows_primaryPass_later)
    next
      case seen
      then show ?thesis using 0
        by (simp add: Let_def isNullOrEmpty_def shiftRows_Cons_same shiftRows_primaryPass_later)
    next
      case absent
      then show ?thesis using 0
        by (simp add: Let_def isNullOrEmpty_def primaryPass_insert_absent shiftRows_primaryPass_later)
    qed
  next
    case (Suc d')
    let ?seen = "if isNullOrEmpty (get row col) then seen else insert (get row col) seen"
    have n: "noFirstOccurrence col ?seen rest d'"
      using Cons.prems Suc noFirstOccurrence_Suc by blast
    have ih: "shiftRows (int (Suc i + d')) (primaryPass col ?seen (Suc i) rest)
              = primaryPass col ?seen (Suc i) (removeAt d' rest)"
      by (rule Cons.IH[OF n])
    have ins: "get row col \<in> seen \<Longrightarrow> insert (get row col) seen = seen" by auto
    show ?thesis using Suc ih
      by (auto simp: Let_def isNullOrEmpty_def shiftRows_Cons_earlier ins)
  qed
qed

lemma shiftRows_uniquePass_full:
  "noFirstOccurrence col seen rows d
   \<Longrightarrow> shiftRows (int (i + d)) (uniquePass col seen i rows) = uniquePass col seen i (removeAt d rows)"
proof (induction rows arbitrary: seen i d)
  case Nil
  then show ?case by simp
next
  case (Cons row rest)
  show ?case
  proof (cases d)
    case 0
    from Cons.prems[unfolded 0 noFirstOccurrence_0]
    consider (empty) "isNullOrEmpty (get row col)"
      | (seen) "\<not> isNullOrEmpty (get row col)" "get row col \<in> seen"
      | (absent) "\<not> isNullOrEmpty (get row col)" "get row col \<notin> seen"
          "get row col \<notin> (\<lambda>r. get r col) ` set rest"
      by blast
    then show ?thesis
    proof cases
      case empty
      then show ?thesis using 0
        by (auto simp: Let_def isNullOrEmpty_def shiftRows_uniquePass_later)
    next
      case seen
      then show ?thesis using 0
        by (simp add: Let_def isNullOrEmpty_def shiftRows_Cons_same shiftRows_uniquePass_later)
    next
      case absent
      then show ?thesis using 0
        by (simp add: Let_def isNullOrEmpty_def uniquePass_insert_absent shiftRows_uniquePass_later)
    qed
  next
    case (Suc d')
    let ?seen = "if isNullOrEmpty (get row col) then seen else insert (get row col) seen"
    have n: "noFirstOccurrence col ?seen rest d'"
      using Cons.prems Suc noFirstOccurrence_Suc by blast
    have ih: "shiftRows (int (Suc i + d')) (uniquePass col ?seen (Suc i) rest)
              = uniquePass col ?seen (Suc i) (removeAt d' rest)"
      by (rule Cons.IH[OF n])
    have ins: "get row col \<in> seen \<Longrightarrow> insert (get row col) seen = seen" by auto
    show ?thesis using Suc ih
      by (auto simp: Let_def isNullOrEmpty_def shiftRows_Cons_earlier ins)
  qed
qed

lemma filter_shiftRows_invariant:
  assumes "\<And>v x. F (v\<lparr>v_row := x\<rparr>) = F v"
  shows "filter F (shiftRows d vs) = shiftRows d (filter F vs)"
  by (induction vs) (auto simp: shiftRows_def assms)

lemma checkViolations_after_delete:
  assumes wf: "wellFormedTable tableData"
    and inv: "\<And>v x. F (v\<lparr>v_row := x\<rparr>) = F v"
    and fk: "filter F (foreignKeyPass confirmedConstraints fileTables foreignKeyConfig) = []"
    and col: "\<And>idx. idx < length (columnsOf tableData) \<Longrightarrow>
        shiftRows (int d) (filter F (columnViolations h tableData confirmedConstraints confirmedTypes idx
                                       (columnsOf tableData ! idx)))
        = filter F (columnViolations h (removeAt d tableData) confirmedConstraints confirmedTypes idx
                      (columnsOf tableData ! idx))"
  shows "filter F
           (updateViolationsAfterDelete
              (Some (checkViolations h tableData confirmedConstraints fileTables foreignKeyConfig confirmedTypes))
              (int d))
         = filter F
             (checkViolations h (removeAt d tableData) confirmedConstraints fileTables foreignKeyConfig
                confirmedTypes)"
proof (cases "tableData = [] \<or> confirmedConstraints = []")
  case True
  then show ?thesis
    by (auto simp: updateViolationsAfterDelete_shiftRows checkViolations_def)
next
  case False
  let ?col = "\<lambda>T. \<lambda>(idx, col). columnViolations h T confirmedConstraints confirmedTypes idx col"
  let ?cols = "enumerate 0 (columnsOf tableData)"
  let ?fk = "foreignKeyPass confirmedConstraints fileTables foreignKeyConfig"
  have hd: "Object_keys (hd tableData) = columnsOf tableData"
    using False by (cases tableData) (simp_all add: columnsOf_def)
  have each: "map (\<lambda>p. shiftRows (int d) (filter F (?col tableData p))) ?cols
              = map (\<lambda>p. filter F (?col (removeAt d tableData) p)) ?cols"
    by (rule map_cong[OF refl]) (auto simp: in_set_enumerate_eq col)
  have "filter F (shiftRows (int d) ?fk) = []"
    unfolding filter_shiftRows_invariant[of F, OF inv] fk by simp
  then have "filter F
           (updateViolationsAfterDelete
              (Some (checkViolations h tableData confirmedConstraints fileTables foreignKeyConfig confirmedTypes))
              (int d))
        = concat (map (\<lambda>p. shiftRows (int d) (filter F (?col tableData p))) ?cols)"
    using False
    by (simp add: updateViolationsAfterDelete_shiftRows checkViolations_def hd shiftRows_append
          shiftRows_concat filter_concat comp_def filter_shiftRows_invariant[of F, OF inv])
  then have lhs: "filter F
           (updateViolationsAfterDelete
              (Some (checkViolations h tableData confirmedConstraints fileTables foreignKeyConfig confirmedTypes))
              (int d))
        = concat (map (\<lambda>p. filter F (?col (removeAt d tableData) p)) ?cols)"
    unfolding each .
  have rhs: "filter F
             (checkViolations h (removeAt d tableData) confirmedConstraints fileTables foreignKeyConfig
                confirmedTypes)
        = concat (map (\<lambda>p. filter F (?col (removeAt d tableData) p)) ?cols)"
  proof (cases "removeAt d tableData = []")
    case True
    then show ?thesis
      by (simp add: checkViolations_def columnViolations_no_rows case_prod_beta)
  next
    case ne: False
    have hd': "Object_keys (hd (removeAt d tableData)) = columnsOf tableData"
      using columnsOf_removeAt[OF wf ne] ne
      by (cases "removeAt d tableData") (simp_all add: columnsOf_def)
    show ?thesis
      using False ne
      by (simp add: checkViolations_def hd' filter_concat comp_def fk)
  qed
  show ?thesis unfolding lhs rhs ..
qed

lemma columnViolations_fromTable:
  "filter spec_fromTable (columnViolations h tableData confirmedConstraints confirmedTypes idx col)
   = columnViolations h tableData confirmedConstraints confirmedTypes idx col"
  unfolding filter_id_conv columnViolations_def Let_def spec_fromTable_def
  by (auto dest: typePass_kind primaryPass_kind uniquePass_kind notnullPass_kind)

lemma foreignKeyPass_fromTable:
  "filter spec_fromTable (foreignKeyPass confirmedConstraints fileTables foreignKeyConfig) = []"
  by (auto simp: filter_empty_conv spec_fromTable_def dest: foreignKeyPass_kind)

lemma columnViolations_after_delete_full:
  assumes "''primary'' \<in> set (constraintsAt confirmedConstraints idx)
           \<or> ''unique'' \<in> set (constraintsAt confirmedConstraints idx)
           \<longrightarrow> noFirstOccurrence col {} tableData d"
  shows "shiftRows (int d) (columnViolations h tableData confirmedConstraints confirmedTypes idx col)
         = columnViolations h (removeAt d tableData) confirmedConstraints confirmedTypes idx col"
  using assms shiftRows_primaryPass_full[of col "{}" tableData d 0]
    shiftRows_uniquePass_full[of col "{}" tableData d 0]
  by (simp add: columnViolations_def Let_def shiftRows_append shiftRows_typePass shiftRows_notnullPass)

text \<open>
  C3 (as amended). On a table whose rows all have the columns of the first row, in the
  same order, for every constraint assignment, foreign-key link and row index \<open>d\<close>, the
  violations \<open>updateViolationsAfterDelete\<close> derives from \<open>checkViolations\<close> of the table
  agree with \<open>checkViolations\<close> of the table without row \<open>d\<close> on the kinds that depend on
  one row only (TYPE MISMATCH, NOT NULL, and PRIMARY KEY with a null or empty value): the
  same violations, in the same order. When moreover row \<open>d\<close> holds, in no primary or
  unique column, the first occurrence of a non-empty value that occurs again in a later
  row, the two agree on all violations derived from the table, that is all but the
  FOREIGN KEY ones.
\<close>

theorem updateViolationsAfterDelete_recomputed:
  assumes "wellFormedTable tableData"
  shows "filter spec_rowLocal
           (updateViolationsAfterDelete
              (Some (checkViolations h tableData confirmedConstraints fileTables foreignKeyConfig confirmedTypes))
              (int d))
         = filter spec_rowLocal
             (checkViolations h (removeAt d tableData) confirmedConstraints fileTables foreignKeyConfig
                confirmedTypes)
       \<and> (spec_noFirstOccurrenceDeleted tableData confirmedConstraints d \<longrightarrow>
            filter spec_fromTable
              (updateViolationsAfterDelete
                 (Some (checkViolations h tableData confirmedConstraints fileTables foreignKeyConfig
                          confirmedTypes))
                 (int d))
            = filter spec_fromTable
                (checkViolations h (removeAt d tableData) confirmedConstraints fileTables foreignKeyConfig
                   confirmedTypes))"
proof (intro conjI impI)
  show "filter spec_rowLocal
           (updateViolationsAfterDelete
              (Some (checkViolations h tableData confirmedConstraints fileTables foreignKeyConfig confirmedTypes))
              (int d))
         = filter spec_rowLocal
             (checkViolations h (removeAt d tableData) confirmedConstraints fileTables foreignKeyConfig
                confirmedTypes)"
  proof (rule checkViolations_after_delete[OF assms])
    show "spec_rowLocal (v\<lparr>v_row := x\<rparr>) = spec_rowLocal v" for v x
      by (simp add: spec_rowLocal_def)
    show "filter spec_rowLocal (foreignKeyPass confirmedConstraints fileTables foreignKeyConfig) = []"
      by (rule foreignKeyPass_rowLocal)
    show "shiftRows (int d) (filter spec_rowLocal
            (columnViolations h tableData confirmedConstraints confirmedTypes idx (columnsOf tableData ! idx)))
          = filter spec_rowLocal
              (columnViolations h (removeAt d tableData) confirmedConstraints confirmedTypes idx
                 (columnsOf tableData ! idx))" for idx
      using columnViolations_after_delete[of d h tableData confirmedConstraints confirmedTypes idx]
      by (simp add: filter_shiftRows)
  qed
next
  assume n: "spec_noFirstOccurrenceDeleted tableData confirmedConstraints d"
  show "filter spec_fromTable
              (updateViolationsAfterDelete
                 (Some (checkViolations h tableData confirmedConstraints fileTables foreignKeyConfig
                          confirmedTypes))
                 (int d))
            = filter spec_fromTable
                (checkViolations h (removeAt d tableData) confirmedConstraints fileTables foreignKeyConfig
                   confirmedTypes)"
  proof (rule checkViolations_after_delete[OF assms])
    show "spec_fromTable (v\<lparr>v_row := x\<rparr>) = spec_fromTable v" for v x
      by (simp add: spec_fromTable_def)
    show "filter spec_fromTable (foreignKeyPass confirmedConstraints fileTables foreignKeyConfig) = []"
      by (rule foreignKeyPass_fromTable)
    show "shiftRows (int d) (filter spec_fromTable
            (columnViolations h tableData confirmedConstraints confirmedTypes idx (columnsOf tableData ! idx)))
          = filter spec_fromTable
              (columnViolations h (removeAt d tableData) confirmedConstraints confirmedTypes idx
                 (columnsOf tableData ! idx))"
      if "idx < length (columnsOf tableData)" for idx
      unfolding columnViolations_fromTable
      by (rule columnViolations_after_delete_full)
         (use n that in \<open>simp add: spec_noFirstOccurrenceDeleted_def\<close>)
  qed
qed

text \<open>
  C3 as stated fails in three ways. For duplicate-value violations: with \<open>id\<close> primary and
  the rows \<open>{id: 1}\<close>, \<open>{id: 1}\<close>, deleting the first row leaves the renumbered duplicate
  violation of the second, while the remaining one-row table has no violation. For rows
  that list their columns in different orders: with the rows \<open>{id: '1', a: ''}\<close>,
  \<open>{a: '', id: '2'}\<close> and the first column not null, the table has no violation, and
  after the first row is deleted the first column is \<open>a\<close>, which is empty. For FOREIGN
  KEY violations, which \<open>checkViolations\<close> derives from the linked files and not from the
  table: with the same files, recomputation reports the dangling value of the second
  linked row at row 2 as before, while the adjusted list has moved it to row 1.
\<close>

theorem updateViolationsAfterDelete_counterexample:
  "updateViolationsAfterDelete
     (Some (checkViolations \<lparr>numberText = (\<lambda>_. False), dateText = (\<lambda>_. False)\<rparr>
              [[(''id'', JNum 1)], [(''id'', JNum 1)]] [[''primary'']] Map.empty None [])) 0
   = [\<lparr>v_row = 1, v_col = ''id'', v_type = ''PRIMARY KEY'', v_msg = ''Duplicate value'', v_value = None\<rparr>]
   \<and> checkViolations \<lparr>numberText = (\<lambda>_. False), dateText = (\<lambda>_. False)\<rparr>
        (removeAt 0 [[(''id'', JNum 1)], [(''id'', JNum 1)]]) [[''primary'']] Map.empty None [] = []
   \<and> updateViolationsAfterDelete
     (Some (checkViolations \<lparr>numberText = (\<lambda>_. False), dateText = (\<lambda>_. False)\<rparr>
              [[(''id'', JStr ''1''), (''a'', JStr [])], [(''a'', JStr []), (''id'', JStr ''2'')]] [[''notnull''], []] Map.empty None [])) 0
   = []
   \<and> checkViolations \<lparr>numberText = (\<lambda>_. False), dateText = (\<lambda>_. False)\<rparr>
        (removeAt 0 [[(''id'', JStr ''1''), (''a'', JStr [])], [(''a'', JStr []), (''id'', JStr ''2'')]]) [[''notnull''], []] Map.empty None []
   = [\<lparr>v_row = 1, v_col = ''a'', v_type = ''NOT NULL'', v_msg = ''Null/empty value'', v_value = None\<rparr>]
   \<and> updateViolationsAfterDelete
     (Some (checkViolations \<lparr>numberText = (\<lambda>_. False), dateText = (\<lambda>_. False)\<rparr>
              [[(''c'', JStr ''1'')], [(''c'', JStr ''9'')]] [[]]
           [''child'' \<mapsto> \<lparr>t_columns = Some [''c''], t_rows = Some [[(''c'', JStr ''1'')], [(''c'', JStr ''9'')]]\<rparr>,
            ''parent'' \<mapsto> \<lparr>t_columns = Some [''id''], t_rows = Some [[(''id'', JStr ''1'')]]\<rparr>]
           (Some \<lparr>fk_primaryFile = Some ''parent'', fk_fkCol = Some ''c'', fk_referencedFile = Some ''child''\<rparr>) [])) 0
   = [\<lparr>v_row = 1, v_col = ''c'', v_type = ''FOREIGN KEY'', v_msg = ''Value '' @ [quote] @ ''9'' @ [quote] @ '' not found in parent.id'', v_value = None\<rparr>]
   \<and> checkViolations \<lparr>numberText = (\<lambda>_. False), dateText = (\<lambda>_. False)\<rparr>
        (removeAt 0 [[(''c'', JStr ''1'')], [(''c'', JStr ''9'')]]) [[]]
           [''child'' \<mapsto> \<lparr>t_columns = Some [''c''], t_rows = Some [[(''c'', JStr ''1'')], [(''c'', JStr ''9'')]]\<rparr>,
            ''parent'' \<mapsto> \<lparr>t_columns = Some [''id''], t_rows = Some [[(''id'', JStr ''1'')]]\<rparr>]
           (Some \<lparr>fk_primaryFile = Some ''parent'', fk_fkCol = Some ''c'', fk_referencedFile = Some ''child''\<rparr>) []
   = [\<lparr>v_row = 2, v_col = ''c'', v_type = ''FOREIGN KEY'', v_msg = ''Value '' @ [quote] @ ''9'' @ [quote] @ '' not found in parent.id'', v_value = None\<rparr>]"
proof -
  have f1: "updateViolationsAfterDelete
     (Some (checkViolations \<lparr>numberText = (\<lambda>_. False), dateText = (\<lambda>_. False)\<rparr>
              [[(''id'', JNum 1)], [(''id'', JNum 1)]] [[''primary'']] Map.empty None [])) 0
   = [\<lparr>v_row = 1, v_col = ''id'', v_type = ''PRIMARY KEY'', v_msg = ''Duplicate value'', v_value = None\<rparr>]"
    by code_simp
  have f2: "checkViolations \<lparr>numberText = (\<lambda>_. False), dateText = (\<lambda>_. False)\<rparr>
        (removeAt 0 [[(''id'', JNum 1)], [(''id'', JNum 1)]]) [[''primary'']] Map.empty None [] = []"
    by code_simp
  have f3: "updateViolationsAfterDelete
     (Some (checkViolations \<lparr>numberText = (\<lambda>_. False), dateText = (\<lambda>_. False)\<rparr>
              [[(''id'', JStr ''1''), (''a'', JStr [])], [(''a'', JStr []), (''id'', JStr ''2'')]] [[''notnull''], []] Map.empty None [])) 0
   = []"
    by code_simp
  have f4: "checkViolations \<lparr>numberText = (\<lambda>_. False), dateText = (\<lambda>_. False)\<rparr>
        (removeAt 0 [[(''id'', JStr ''1''), (''a'', JStr [])], [(''a'', JStr []), (''id'', JStr ''2'')]]) [[''notnull''], []] Map.empty None []
   = [\<lparr>v_row = 1, v_col = ''a'', v_type = ''NOT NULL'', v_msg = ''Null/empty value'', v_value = None\<rparr>]"
    by code_simp
  have f5: "updateViolationsAfterDelete
     (Some (checkViolations \<lparr>numberText = (\<lambda>_. False), dateText = (\<lambda>_. False)\<rparr>
              [[(''c'', JStr ''1'')], [(''c'', JStr ''9'')]] [[]]
           [''child'' \<mapsto> \<lparr>t_columns = Some [''c''], t_rows = Some [[(''c'', JStr ''1'')], [(''c'', JStr ''9'')]]\<rparr>,
            ''parent'' \<mapsto> \<lparr>t_columns = Some [''id''], t_rows = Some [[(''id'', JStr ''1'')]]\<rparr>]
           (Some \<lparr>fk_primaryFile = Some ''parent'', fk_fkCol = Some ''c'', fk_referencedFile = Some ''child''\<rparr>) [])) 0
   = [\<lparr>v_row = 1, v_col = ''c'', v_type = ''FOREIGN KEY'', v_msg = ''Value '' @ [quote] @ ''9'' @ [quote] @ '' not found in parent.id'', v_value = None\<rparr>]"
    by code_simp
  have f6: "checkViolations \<lparr>numberText = (\<lambda>_. False), dateText = (\<lambda>_. False)\<rparr>
        (removeAt 0 [[(''c'', JStr ''1'')], [(''c'', JStr ''9'')]]) [[]]
           [''child'' \<mapsto> \<lparr>t_columns = Some [''c''], t_rows = Some [[(''c'', JStr ''1'')], [(''c'', JStr ''9'')]]\<rparr>,
            ''parent'' \<mapsto> \<lparr>t_columns = Some [''id''], t_rows = Some [[(''id'', JStr ''1'')]]\<rparr>]
           (Some \<lparr>fk_primaryFile = Some ''parent'', fk_fkCol = Some ''c'', fk_referencedFile = Some ''child''\<rparr>) []
   = [\<lparr>v_row = 2, v_col = ''c'', v_type = ''FOREIGN KEY'', v_msg = ''Value '' @ [quote] @ ''9'' @ [quote] @ '' not found in parent.id'', v_value = None\<rparr>]"
    by code_simp
  from f1 f2 f3 f4 f5 f6 show ?thesis by blast
qed

theorem updateViolationsAfterDelete_recomputed_witness:
  "wellFormedTable [[(''id'', JNum 1)], [(''id'', JNum 1)], [(''id'', JStr [])]]
   \<and> spec_noFirstOccurrenceDeleted [[(''id'', JNum 1)], [(''id'', JNum 1)], [(''id'', JStr [])]] [[''primary'']] 1
   \<and> filter spec_fromTable
       (updateViolationsAfterDelete
          (Some (checkViolations \<lparr>numberText = (\<lambda>_. False), dateText = (\<lambda>_. False)\<rparr>
                   [[(''id'', JNum 1)], [(''id'', JNum 1)], [(''id'', JStr [])]] [[''primary'']] Map.empty None []))
          (int 1))
     = [\<lparr>v_row = 2, v_col = ''id'', v_type = ''PRIMARY KEY'', v_msg = ''Null/empty value'', v_value = None\<rparr>]
   \<and> filter spec_rowLocal
       (updateViolationsAfterDelete
          (Some (checkViolations \<lparr>numberText = (\<lambda>_. False), dateText = (\<lambda>_. False)\<rparr>
                   [[(''id'', JNum 1)], [(''id'', JNum 1)], [(''id'', JStr [])]] [[''primary'']] Map.empty None []))
          (int 1))
     = [\<lparr>v_row = 2, v_col = ''id'', v_type = ''PRIMARY KEY'', v_msg = ''Null/empty value'', v_value = None\<rparr>]"
proof -
  let ?T = "[[(''id'', JNum 1)], [(''id'', JNum 1)], [(''id'', JStr [])]]"
  have w: "wellFormedTable ?T" by (simp add: wellFormedTable_def columnsOf_def Object_keys_def)
  have n: "spec_noFirstOccurrenceDeleted ?T [[''primary'']] 1"
    by (simp add: spec_noFirstOccurrenceDeleted_def noFirstOccurrence_def columnsOf_def Object_keys_def
          earlierValues_def get_def)
  have r: "filter spec_fromTable
             (checkViolations \<lparr>numberText = (\<lambda>_. False), dateText = (\<lambda>_. False)\<rparr>
                (removeAt 1 ?T) [[''primary'']] Map.empty None [])
     = [\<lparr>v_row = 2, v_col = ''id'', v_type = ''PRIMARY KEY'', v_msg = ''Null/empty value'', v_value = None\<rparr>]"
    by code_simp
  have l: "filter spec_rowLocal
             (checkViolations \<lparr>numberText = (\<lambda>_. False), dateText = (\<lambda>_. False)\<rparr>
                (removeAt 1 ?T) [[''primary'']] Map.empty None [])
     = [\<lparr>v_row = 2, v_col = ''id'', v_type = ''PRIMARY KEY'', v_msg = ''Null/empty value'', v_value = None\<rparr>]"
    by code_simp
  note s = updateViolationsAfterDelete_recomputed[OF w, of "\<lparr>numberText = (\<lambda>_. False), dateText = (\<lambda>_. False)\<rparr>"
      "[[''primary'']]" Map.empty None "[]" 1]
  from s n r have a: "filter spec_fromTable
       (updateViolationsAfterDelete
          (Some (checkViolations \<lparr>numberText = (\<lambda>_. False), dateText = (\<lambda>_. False)\<rparr>
                   ?T [[''primary'']] Map.empty None []))
          (int 1))
     = [\<lparr>v_row = 2, v_col = ''id'', v_type = ''PRIMARY KEY'', v_msg = ''Null/empty value'', v_value = None\<rparr>]"
    by simp
  from s l have b: "filter spec_rowLocal
       (updateViolationsAfterDelete
          (Some (checkViolations \<lparr>numberText = (\<lambda>_. False), dateText = (\<lambda>_. False)\<rparr>
                   ?T [[''primary'']] Map.empty None []))
          (int 1))
     = [\<lparr>v_row = 2, v_col = ''id'', v_type = ''PRIMARY KEY'', v_msg = ''Null/empty value'', v_value = None\<rparr>]"
    by simp
  from w n a b show ?thesis by blast
qed


section \<open>Partial repairs: proofs\<close>













section \<open>General repairs: proofs\<close>







lemma generateGeneralRepairs_rows:
  "map r_rows (generateGeneralRepairs violations tableData selectedFile clock)
   = (if duplicateViolationsOf violations = [] \<and> nullViolationsOf violations = [] then []
      else if duplicateViolationsOf violations = [] then [repairRowsOf violations tableData]
      else if areRepairsIdentical (repairRows1Of violations tableData) (repairRows2Of violations tableData)
      then [repairRows1Of violations tableData]
      else [repairRows1Of violations tableData, repairRows2Of violations tableData])"
proof (cases "violations = []")
  case True
  then show ?thesis
    by (simp add: generateGeneralRepairs_def duplicateViolationsOf_def nullViolationsOf_def)
next
  case False
  then show ?thesis
    by (simp add: generateGeneralRepairs_def Let_def repairRowsOf_def repairRows1Of_def repairRows2Of_def)
qed




section \<open>General repairs leave no null or duplicate: proofs\<close>

lemma subseq_keeps_distinct: "subseq xs ys \<Longrightarrow> distinct ys \<Longrightarrow> distinct xs"
proof (induction rule: list_emb.induct)
  case (list_emb_Nil ys)
  then show ?case by simp
next
  case (list_emb_Cons xs ys y)
  then show ?case by simp
next
  case (list_emb_Cons2 x y xs ys)
  then have "set xs \<subseteq> set ys" by (auto dest: list_emb_set)
  with list_emb_Cons2 show ?case by auto
qed

lemma distinct_filter_nth:
  "distinct (filter P xs) \<Longrightarrow> j < k \<Longrightarrow> k < length xs \<Longrightarrow> P (xs ! k) \<Longrightarrow> xs ! j \<noteq> xs ! k"
proof (induction xs arbitrary: j k)
  case Nil
  then show ?case by simp
next
  case (Cons x xs)
  from Cons.prems(2) obtain k' where k: "k = Suc k'" by (cases k) auto
  with Cons.prems have k': "k' < length xs" and P: "P (xs ! k')" by simp_all
  then have mem: "xs ! k' \<in> set (filter P xs)" by simp
  show ?case
  proof (cases j)
    case 0
    show ?thesis
    proof
      assume "(x # xs) ! j = (x # xs) ! k"
      with 0 k have e: "x = xs ! k'" by simp
      with P Cons.prems(1) have "x \<notin> set (filter P xs)" by simp
      with mem e show False by simp
    qed
  next
    case (Suc j')
    have d: "distinct (filter P xs)" using Cons.prems(1) by (simp split: if_splits)
    from Cons.IH[OF d, of j' k'] Suc k Cons.prems(2) k' P show ?thesis by simp
  qed
qed

lemma no_repeat_distinct:
  assumes "\<And>i. i < length xs \<Longrightarrow> P (xs ! i) \<Longrightarrow> xs ! i \<notin> set (take i xs)"
  shows "distinct (filter P xs)"
  using assms
proof (induction xs rule: rev_induct)
  case Nil
  then show ?case by simp
next
  case (snoc x xs)
  have "distinct (filter P xs)"
  proof (rule snoc.IH)
    fix i assume i: "i < length xs" and p: "P (xs ! i)"
    from snoc.prems[of i] i p show "xs ! i \<notin> set (take i xs)" by (simp add: nth_append)
  qed
  moreover have "P x \<Longrightarrow> x \<notin> set xs"
    using snoc.prems[of "length xs"] by simp
  ultimately show ?case by auto
qed

lemma firstOccurrence_mono:
  "firstOccurrence cols row idx seenValues = (keep, seenValues') \<Longrightarrow> seenValues key \<noteq> None
   \<Longrightarrow> seenValues' key \<noteq> None"
  by (induction cols arbitrary: seenValues) (auto simp: Let_def split: if_splits)

lemma firstOccurrence_keep:
  "firstOccurrence cols row idx seenValues = (True, seenValues') \<Longrightarrow> c \<in> set cols
   \<Longrightarrow> seenValues (cellKey c row) = None \<and> seenValues' (cellKey c row) \<noteq> None"
proof (induction cols arbitrary: seenValues)
  case Nil
  then show ?case by simp
next
  case (Cons col cols)
  from Cons.prems(1) have free: "seenValues (cellKey col row) = None"
    and rec: "firstOccurrence cols row idx (seenValues(cellKey col row \<mapsto> idx)) = (True, seenValues')"
    by (auto simp: Let_def split: if_splits)
  show ?case
  proof (cases "c = col")
    case True
    have "(seenValues(cellKey col row \<mapsto> idx)) (cellKey col row) \<noteq> None" by simp
    from firstOccurrence_mono[OF rec this] free True show ?thesis by simp
  next
    case False
    with Cons.prems(2) have "c \<in> set cols" by simp
    from Cons.IH[OF rec this] show ?thesis by (auto split: if_splits)
  qed
qed

lemma keepFirst_subseq: "subseq (keepFirst nullRowIndices cols seenValues idx rows) rows"
proof (induction rows arbitrary: seenValues idx)
  case Nil
  then show ?case by simp
next
  case (Cons row rest)
  show ?case
    by (cases "firstOccurrence cols row idx seenValues") (use Cons.IH in \<open>auto\<close>)
qed

lemma keepFirst_origin:
  "r \<in> set (keepFirst nullRowIndices cols seenValues idx rows)
   \<Longrightarrow> \<exists>k < length rows. rows ! k = r \<and> int (idx + k) \<notin> nullRowIndices"
proof (induction rows arbitrary: seenValues idx)
  case Nil
  then show ?case by simp
next
  case (Cons row rest)
  obtain keep seenValues' where f: "firstOccurrence cols row idx seenValues = (keep, seenValues')"
    by (cases "firstOccurrence cols row idx seenValues")
  from Cons.prems f consider
      (head) "r = row" "int idx \<notin> nullRowIndices"
    | (tail) s where "r \<in> set (keepFirst nullRowIndices cols s (Suc idx) rest)"
    by (auto split: if_splits)
  then show ?case
  proof cases
    case head
    then show ?thesis by (intro exI[of _ 0]) simp
  next
    case tail
    from Cons.IH[OF tail] obtain k where "k < length rest" "rest ! k = r" "int (Suc idx + k) \<notin> nullRowIndices"
      by blast
    then show ?thesis by (intro exI[of _ "Suc k"]) simp
  qed
qed

lemma keepFirst_keys:
  assumes "c \<in> set cols"
  shows "distinct (map (cellKey c) (keepFirst nullRowIndices cols seenValues idx rows))
         \<and> (\<forall>r \<in> set (keepFirst nullRowIndices cols seenValues idx rows). seenValues (cellKey c r) = None)"
proof (induction rows arbitrary: seenValues idx)
  case Nil
  then show ?case by simp
next
  case (Cons row rest)
  show ?case
  proof (cases "int idx \<in> nullRowIndices")
    case True
    then show ?thesis using Cons.IH by simp
  next
    case False
    obtain keep seenValues' where f: "firstOccurrence cols row idx seenValues = (keep, seenValues')"
      by (cases "firstOccurrence cols row idx seenValues")
    let ?rest = "keepFirst nullRowIndices cols seenValues' (Suc idx) rest"
    have d: "distinct (map (cellKey c) ?rest)"
      and n': "\<forall>r \<in> set ?rest. seenValues' (cellKey c r) = None"
      using Cons.IH[of seenValues' "Suc idx"] by simp_all
    have n: "\<forall>r \<in> set ?rest. seenValues (cellKey c r) = None"
      using n' firstOccurrence_mono[OF f] by blast
    show ?thesis
    proof (cases keep)
      case True
      from f True have f': "firstOccurrence cols row idx seenValues = (True, seenValues')" by simp
      from firstOccurrence_keep[OF f' assms]
      have a: "seenValues (cellKey c row) = None" and b: "seenValues' (cellKey c row) \<noteq> None" by simp_all
      from b n' have "cellKey c row \<notin> set (map (cellKey c) ?rest)" by auto
      with d n a False f True show ?thesis by simp
    next
      case no: False
      with d n False f show ?thesis by simp
    qed
  qed
qed

lemma filtered_enumerate_subseq: "subseq (map snd (filter Q (enumerate 0 xs))) xs"
proof -
  have "subseq (map snd (filter Q (enumerate 0 xs))) (map snd (enumerate 0 xs))"
    by (intro subseq_map subseq_filter_left)
  then show ?thesis by simp
qed

lemma filtered_enumerate_origin:
  "r \<in> set (map snd (filter Q (enumerate 0 xs))) \<Longrightarrow> \<exists>k < length xs. xs ! k = r \<and> Q (k, r)"
  by (auto simp: in_set_enumerate_eq)

lemma filtered_enumerate_distinct:
  assumes "\<And>i r j s. Q (i, r) \<Longrightarrow> Q (j, s) \<Longrightarrow> f r = f s \<Longrightarrow> i = j"
  shows "distinct (map f (map snd (filter Q (enumerate 0 xs))))"
proof -
  have d: "distinct (filter Q (enumerate 0 xs))"
    by (intro distinct_filter) (simp add: distinct_enumerate)
  have "inj_on (f \<circ> snd) (set (filter Q (enumerate 0 xs)))"
  proof (rule inj_onI)
    fix p q
    assume p: "p \<in> set (filter Q (enumerate 0 xs))" and q: "q \<in> set (filter Q (enumerate 0 xs))"
      and e: "(f \<circ> snd) p = (f \<circ> snd) q"
    obtain i r where pi: "p = (i, r)" by (cases p)
    obtain j s where qj: "q = (j, s)" by (cases q)
    from p q pi qj have "Q (i, r)" "Q (j, s)" by simp_all
    with e pi qj have "i = j" using assms by simp
    moreover from p q pi qj have "r = xs ! i" "s = xs ! j" by (simp_all add: in_set_enumerate_eq)
    ultimately show "p = q" using pi qj by simp
  qed
  with d have "distinct (map (f \<circ> snd) (filter Q (enumerate 0 xs)))" by (simp add: distinct_map)
  then show ?thesis by (simp add: comp_def)
qed

lemma keepLast_subseq: "subseq (keepLast nullRowIndices cols tableData) tableData"
  unfolding keepLast_def Let_def by (rule filtered_enumerate_subseq)

lemma keepLast_origin:
  "r \<in> set (keepLast nullRowIndices cols tableData)
   \<Longrightarrow> \<exists>k < length tableData. tableData ! k = r \<and> int k \<notin> nullRowIndices"
  unfolding keepLast_def Let_def by (drule filtered_enumerate_origin) auto

lemma keepLast_keys:
  assumes "c \<in> set cols"
  shows "distinct (map (cellKey c) (keepLast nullRowIndices cols tableData))"
  unfolding keepLast_def Let_def
  by (rule filtered_enumerate_distinct) (use assms in \<open>auto simp: list_all_iff\<close>)

lemma repairRowsOf_subseq: "subseq (repairRowsOf violations tableData) tableData"
  unfolding repairRowsOf_def by (rule filtered_enumerate_subseq)

lemma repairRowsOf_origin:
  "r \<in> set (repairRowsOf violations tableData)
   \<Longrightarrow> \<exists>k < length tableData. tableData ! k = r \<and> int k \<notin> rowIndicesOf (nullViolationsOf violations)"
  unfolding repairRowsOf_def by (drule filtered_enumerate_origin) auto

lemma js_includes_self: "js_includes s s"
  by (simp add: js_includes_def)

lemma null_flagged:
  assumes i: "i < length tableData" and idx: "idx < length (columnsOf tableData)"
    and C: "confirmedConstraints \<noteq> []"
    and e: "isNullOrEmpty (get (tableData ! i) (columnsOf tableData ! idx))"
    and k: "''primary'' \<in> set (constraintsAt confirmedConstraints idx)
            \<or> ''notnull'' \<in> set (constraintsAt confirmedConstraints idx)"
  shows "int i \<in> rowIndicesOf (nullViolationsOf
           (checkViolations h tableData confirmedConstraints fileTables foreignKeyConfig confirmedTypes))"
proof -
  let ?col = "columnsOf tableData ! idx"
  let ?V = "checkViolations h tableData confirmedConstraints fileTables foreignKeyConfig confirmedTypes"
  have T: "tableData \<noteq> []" using i by auto
  from k obtain kind where v: "violationAt i ?col kind ''Null/empty value'' \<in> set ?V"
  proof
    assume p: "''primary'' \<in> set (constraintsAt confirmedConstraints idx)"
    have "violationAt i ?col ''PRIMARY KEY'' ''Null/empty value'' \<in> set (primaryPass ?col {} 0 tableData)"
      unfolding in_primaryPass_iff using i e by auto
    then have "violationAt i ?col ''PRIMARY KEY'' ''Null/empty value'' \<in> set ?V"
      unfolding in_checkViolations[OF T C] using idx p by blast
    then show ?thesis by (rule that)
  next
    assume p: "''notnull'' \<in> set (constraintsAt confirmedConstraints idx)"
    have "violationAt i ?col ''NOT NULL'' ''Null/empty value'' \<in> set (notnullPass ?col tableData)"
      unfolding in_notnullPass_iff using i e by auto
    then have "violationAt i ?col ''NOT NULL'' ''Null/empty value'' \<in> set ?V"
      unfolding in_checkViolations[OF T C] using idx p by blast
    then show ?thesis by (rule that)
  qed
  then have "violationAt i ?col kind ''Null/empty value'' \<in> set (nullViolationsOf ?V)"
    by (simp add: nullViolationsOf_def violationAt_def js_includes_self)
  then have "v_row (violationAt i ?col kind ''Null/empty value'') - 1 \<in> rowIndicesOf (nullViolationsOf ?V)"
    unfolding rowIndicesOf_def by (metis (no_types, lifting) image_eqI set_map)
  then show ?thesis by (simp add: violationAt_def)
qed

lemma duplicate_flagged:
  assumes i: "i < length tableData" and idx: "idx < length (columnsOf tableData)"
    and C: "confirmedConstraints \<noteq> []"
    and ne: "\<not> isNullOrEmpty (get (tableData ! i) (columnsOf tableData ! idx))"
    and d: "get (tableData ! i) (columnsOf tableData ! idx) \<in> earlierValues tableData (columnsOf tableData ! idx) i"
    and k: "''primary'' \<in> set (constraintsAt confirmedConstraints idx)
            \<or> ''unique'' \<in> set (constraintsAt confirmedConstraints idx)"
  shows "columnsOf tableData ! idx \<in> set (map v_col (duplicateViolationsOf
           (checkViolations h tableData confirmedConstraints fileTables foreignKeyConfig confirmedTypes)))"
proof -
  let ?col = "columnsOf tableData ! idx"
  let ?V = "checkViolations h tableData confirmedConstraints fileTables foreignKeyConfig confirmedTypes"
  have T: "tableData \<noteq> []" using i by auto
  from k obtain kind where v: "violationAt i ?col kind ''Duplicate value'' \<in> set ?V"
  proof
    assume p: "''primary'' \<in> set (constraintsAt confirmedConstraints idx)"
    have "violationAt i ?col ''PRIMARY KEY'' ''Duplicate value'' \<in> set (primaryPass ?col {} 0 tableData)"
      unfolding in_primaryPass_iff using i ne d by auto
    then have "violationAt i ?col ''PRIMARY KEY'' ''Duplicate value'' \<in> set ?V"
      unfolding in_checkViolations[OF T C] using idx p by blast
    then show ?thesis by (rule that)
  next
    assume p: "''unique'' \<in> set (constraintsAt confirmedConstraints idx)"
    have "violationAt i ?col ''UNIQUE'' ''Duplicate value'' \<in> set (uniquePass ?col {} 0 tableData)"
      unfolding in_uniquePass_iff using i ne d by auto
    then have "violationAt i ?col ''UNIQUE'' ''Duplicate value'' \<in> set ?V"
      unfolding in_checkViolations[OF T C] using idx p by blast
    then show ?thesis by (rule that)
  qed
  then have "violationAt i ?col kind ''Duplicate value'' \<in> set (duplicateViolationsOf ?V)"
    by (simp add: duplicateViolationsOf_def violationAt_def js_includes_self)
  then have "v_col (violationAt i ?col kind ''Duplicate value'') \<in> set (map v_col (duplicateViolationsOf ?V))"
    by (metis (no_types, lifting) image_eqI set_map)
  then show ?thesis by (simp add: violationAt_def)
qed

lemma no_duplicate_in_subsequence:
  assumes sub: "subseq S tableData"
    and free: "\<And>i. i < length tableData \<Longrightarrow> \<not> isNullOrEmpty (get (tableData ! i) col)
                 \<Longrightarrow> get (tableData ! i) col \<notin> earlierValues tableData col i"
    and k: "k < length S" and ne: "\<not> isNullOrEmpty (get (S ! k) col)"
  shows "get (S ! k) col \<notin> earlierValues S col k"
proof
  assume "get (S ! k) col \<in> earlierValues S col k"
  then obtain j where j: "j < k" and eq: "get (S ! j) col = get (S ! k) col"
    using in_earlierValues[of k S] k by auto
  let ?g = "\<lambda>r. get r col"
  let ?P = "\<lambda>v. \<not> isNullOrEmpty v"
  have "distinct (filter ?P (map ?g tableData))"
  proof (rule no_repeat_distinct)
    fix i assume i: "i < length (map ?g tableData)" and p: "\<not> isNullOrEmpty (map ?g tableData ! i)"
    then have "get (tableData ! i) col \<notin> earlierValues tableData col i" using free by simp
    then show "map ?g tableData ! i \<notin> set (take i (map ?g tableData))"
      using i by (simp add: earlierValues_def take_map)
  qed
  moreover have "subseq (filter ?P (map ?g S)) (filter ?P (map ?g tableData))"
    using sub by (intro subseq_filter subseq_map)
  ultimately have "distinct (filter ?P (map ?g S))" by (rule subseq_keeps_distinct[rotated])
  from distinct_filter_nth[OF this j, of] k ne have "map ?g S ! j \<noteq> map ?g S ! k" by simp
  with j k eq show False by simp
qed

lemma repaired_rows_clean:
  assumes wf: "wellFormedTable tableData"
    and sub: "subseq S tableData"
    and orig: "\<And>r. r \<in> set S \<Longrightarrow> \<exists>k < length tableData. tableData ! k = r
                 \<and> int k \<notin> rowIndicesOf (nullViolationsOf
                      (checkViolations h tableData confirmedConstraints fileTables foreignKeyConfig confirmedTypes))"
    and keys: "\<And>c. c \<in> set (map v_col (duplicateViolationsOf
                      (checkViolations h tableData confirmedConstraints fileTables foreignKeyConfig confirmedTypes)))
                 \<Longrightarrow> distinct (map (cellKey c) S)"
    and v: "v \<in> set (checkViolations h S confirmedConstraints fileTables foreignKeyConfig confirmedTypes)"
  shows "\<not> spec_nullOrDuplicate v"
proof
  assume nd: "spec_nullOrDuplicate v"
  let ?V = "checkViolations h tableData confirmedConstraints fileTables foreignKeyConfig confirmedTypes"
  have S: "S \<noteq> []" and C: "confirmedConstraints \<noteq> []"
    using v by (auto simp: checkViolations_def split: if_splits)
  have "hd S \<in> set S" using S by simp
  then have "hd S \<in> set tableData" using orig by (metis nth_mem)
  then have cols: "columnsOf S = columnsOf tableData"
    using wf S by (cases S) (auto simp: wellFormedTable_def columnsOf_def)
  have null_free: "\<not> isNullOrEmpty (get (S ! k) (columnsOf tableData ! idx))"
    if "k < length S" "idx < length (columnsOf tableData)"
      "''primary'' \<in> set (constraintsAt confirmedConstraints idx)
       \<or> ''notnull'' \<in> set (constraintsAt confirmedConstraints idx)" for k idx
  proof
    assume e: "isNullOrEmpty (get (S ! k) (columnsOf tableData ! idx))"
    from that(1) have "S ! k \<in> set S" by simp
    from orig[OF this] obtain i where i: "i < length tableData" "tableData ! i = S ! k"
      "int i \<notin> rowIndicesOf (nullViolationsOf ?V)" by blast
    from null_flagged[OF i(1) that(2) C _ that(3), of h fileTables foreignKeyConfig confirmedTypes] e i(2,3)
    show False by simp
  qed
  have dup_free: "get (S ! k) (columnsOf tableData ! idx) \<notin> earlierValues S (columnsOf tableData ! idx) k"
    if k: "k < length S" and idx: "idx < length (columnsOf tableData)"
      and c: "''primary'' \<in> set (constraintsAt confirmedConstraints idx)
       \<or> ''unique'' \<in> set (constraintsAt confirmedConstraints idx)"
      and ne: "\<not> isNullOrEmpty (get (S ! k) (columnsOf tableData ! idx))" for k idx
  proof (cases "columnsOf tableData ! idx \<in> set (map v_col (duplicateViolationsOf ?V))")
    case True
    let ?col = "columnsOf tableData ! idx"
    from keys[OF True] have d: "distinct (map (cellKey ?col) S)" .
    show ?thesis
    proof
      assume "get (S ! k) ?col \<in> earlierValues S ?col k"
      then obtain j where j: "j < k" and eq: "get (S ! j) ?col = get (S ! k) ?col"
        using in_earlierValues[of k S] k by auto
      then have "cellKey ?col (S ! j) = cellKey ?col (S ! k)"
        by (simp add: cellKey_def)
      with nth_eq_iff_index_eq[OF d, of j k] j k show False by simp
    qed
  next
    case False
    show ?thesis
    proof (rule no_duplicate_in_subsequence[OF sub _ k ne])
      fix i assume i: "i < length tableData"
        and n: "\<not> isNullOrEmpty (get (tableData ! i) (columnsOf tableData ! idx))"
      show "get (tableData ! i) (columnsOf tableData ! idx) \<notin> earlierValues tableData (columnsOf tableData ! idx) i"
        using duplicate_flagged[OF i idx C n _ c, of h fileTables foreignKeyConfig confirmedTypes] False
        by blast
    qed
  qed
  from v[unfolded in_checkViolations[OF S C] cols]
  consider
      (type) idx where "v \<in> set (typePass h (columnsOf tableData ! idx) (dataTypeAt confirmedTypes idx) S)"
    | (primary) idx where "idx < length (columnsOf tableData)"
        "''primary'' \<in> set (constraintsAt confirmedConstraints idx)"
        "v \<in> set (primaryPass (columnsOf tableData ! idx) {} 0 S)"
    | (unique) idx where "idx < length (columnsOf tableData)"
        "''unique'' \<in> set (constraintsAt confirmedConstraints idx)"
        "v \<in> set (uniquePass (columnsOf tableData ! idx) {} 0 S)"
    | (notnull) idx where "idx < length (columnsOf tableData)"
        "''notnull'' \<in> set (constraintsAt confirmedConstraints idx)"
        "v \<in> set (notnullPass (columnsOf tableData ! idx) S)"
    | (foreign) "v \<in> set (foreignKeyPass confirmedConstraints fileTables foreignKeyConfig)"
    by blast
  then show False
  proof cases
    case type
    then show False using nd typePass_kind by (fastforce simp: spec_nullOrDuplicate_def)
  next
    case primary
    from primary(3)[unfolded in_primaryPass_iff] obtain k where k: "k < length S"
      "isNullOrEmpty (get (S ! k) (columnsOf tableData ! idx))
       \<or> get (S ! k) (columnsOf tableData ! idx) \<in> earlierValues S (columnsOf tableData ! idx) k"
      by blast
    with null_free[OF k(1) primary(1)] dup_free[OF k(1) primary(1)] primary(2) show False by blast
  next
    case unique
    from unique(3)[unfolded in_uniquePass_iff] obtain k where k: "k < length S"
      "\<not> isNullOrEmpty (get (S ! k) (columnsOf tableData ! idx))"
      "get (S ! k) (columnsOf tableData ! idx) \<in> earlierValues S (columnsOf tableData ! idx) k"
      by blast
    with dup_free[OF k(1) unique(1)] unique(2) show False by blast
  next
    case notnull
    from notnull(3)[unfolded in_notnullPass_iff] obtain k where k: "k < length S"
      "isNullOrEmpty (get (S ! k) (columnsOf tableData ! idx))" by blast
    with null_free[OF k(1) notnull(1)] notnull(2) show False by blast
  next
    case foreign
    then show False using nd foreignKeyPass_kind by (fastforce simp: spec_nullOrDuplicate_def)
  qed
qed

lemma set_js_Set [simp]: "set (js_Set xs) = set xs"
  by (induction xs) auto

text \<open>
  C4 (as amended). On a table whose rows all have the columns of the first row, in the
  same order, every candidate \<open>generateGeneralRepairs\<close> returns for the violations
  \<open>checkViolations\<close> found (null removal, keep-first, keep-last) is free of null/empty and
  duplicate-value violations: checking its rows again under the same constraints reports
  no PRIMARY KEY, UNIQUE or NOT NULL violation.
\<close>

theorem generateGeneralRepairs_clean:
  assumes "wellFormedTable tableData"
  shows "\<forall>cand \<in> set (generateGeneralRepairs
                       (checkViolations h tableData confirmedConstraints fileTables foreignKeyConfig confirmedTypes)
                       tableData selectedFile clock).
           \<forall>v \<in> set (checkViolations h (r_rows cand) confirmedConstraints fileTables foreignKeyConfig
                         confirmedTypes).
             \<not> spec_nullOrDuplicate v"
proof (intro ballI)
  let ?V = "checkViolations h tableData confirmedConstraints fileTables foreignKeyConfig confirmedTypes"
  fix cand v
  assume cand: "cand \<in> set (generateGeneralRepairs ?V tableData selectedFile clock)"
    and v: "v \<in> set (checkViolations h (r_rows cand) confirmedConstraints fileTables foreignKeyConfig
                         confirmedTypes)"
  from cand have "r_rows cand \<in> set (map r_rows (generateGeneralRepairs ?V tableData selectedFile clock))"
    by simp
  then consider
      (nulls) "duplicateViolationsOf ?V = []" "r_rows cand = repairRowsOf ?V tableData"
    | (first) "r_rows cand = repairRows1Of ?V tableData"
    | (last) "r_rows cand = repairRows2Of ?V tableData"
    unfolding generateGeneralRepairs_rows by (auto split: if_splits)
  then show "\<not> spec_nullOrDuplicate v"
  proof cases
    case nulls
    show ?thesis
    proof (rule repaired_rows_clean[OF assms _ _ _ v])
      show "subseq (r_rows cand) tableData" unfolding nulls(2) by (rule repairRowsOf_subseq)
    next
      fix r assume "r \<in> set (r_rows cand)"
      then show "\<exists>k < length tableData. tableData ! k = r \<and> int k \<notin> rowIndicesOf (nullViolationsOf ?V)"
        unfolding nulls(2) by (rule repairRowsOf_origin)
    next
      fix c assume "c \<in> set (map v_col (duplicateViolationsOf ?V))"
      then show "distinct (map (cellKey c) (r_rows cand))" using nulls(1) by simp
    qed
  next
    case first
    show ?thesis
    proof (rule repaired_rows_clean[OF assms _ _ _ v])
      show "subseq (r_rows cand) tableData"
        unfolding first repairRows1Of_def by (rule keepFirst_subseq)
    next
      fix r assume "r \<in> set (r_rows cand)"
      then have "\<exists>k < length tableData. tableData ! k = r
                   \<and> int (0 + k) \<notin> rowIndicesOf (nullViolationsOf ?V)"
        unfolding first repairRows1Of_def by (rule keepFirst_origin)
      then show "\<exists>k < length tableData. tableData ! k = r \<and> int k \<notin> rowIndicesOf (nullViolationsOf ?V)"
        by simp
    next
      fix c assume "c \<in> set (map v_col (duplicateViolationsOf ?V))"
      then have "c \<in> set (js_Set (map v_col (duplicateViolationsOf ?V)))" by simp
      from keepFirst_keys[OF this] show "distinct (map (cellKey c) (r_rows cand))"
        unfolding first repairRows1Of_def by blast
    qed
  next
    case last
    show ?thesis
    proof (rule repaired_rows_clean[OF assms _ _ _ v])
      show "subseq (r_rows cand) tableData"
        unfolding last repairRows2Of_def by (rule keepLast_subseq)
    next
      fix r assume "r \<in> set (r_rows cand)"
      then show "\<exists>k < length tableData. tableData ! k = r \<and> int k \<notin> rowIndicesOf (nullViolationsOf ?V)"
        unfolding last repairRows2Of_def by (rule keepLast_origin)
    next
      fix c assume "c \<in> set (map v_col (duplicateViolationsOf ?V))"
      then have "c \<in> set (js_Set (map v_col (duplicateViolationsOf ?V)))" by simp
      then show "distinct (map (cellKey c) (r_rows cand))"
        unfolding last repairRows2Of_def by (rule keepLast_keys)
    qed
  qed
qed

text \<open>
  C4 as stated, for every table, fails when the rows list their columns in different
  orders, because constraints go by the column position in the first row of the table
  checked. With the rows \<open>{id: '', a: 'x'}\<close>, \<open>{a: '', id: '1'}\<close> and the first column
  not null, the only candidate is the second row; checked on its own, its first column
  is \<open>a\<close>, which is empty.
\<close>

theorem generateGeneralRepairs_clean_counterexample:
  "map r_rows (generateGeneralRepairs
      (checkViolations \<lparr>numberText = (\<lambda>_. False), dateText = (\<lambda>_. False)\<rparr>
         [[(''id'', JStr []), (''a'', JStr ''x'')], [(''a'', JStr []), (''id'', JStr ''1'')]]
         [[''notnull''], []] Map.empty None [])
      [[(''id'', JStr []), (''a'', JStr ''x'')], [(''a'', JStr []), (''id'', JStr ''1'')]] None (\<lambda>_. 0))
   = [[[(''a'', JStr []), (''id'', JStr ''1'')]]]
   \<and> checkViolations \<lparr>numberText = (\<lambda>_. False), dateText = (\<lambda>_. False)\<rparr>
        [[(''a'', JStr []), (''id'', JStr ''1'')]] [[''notnull''], []] Map.empty None []
     = [\<lparr>v_row = 1, v_col = ''a'', v_type = ''NOT NULL'', v_msg = ''Null/empty value'', v_value = None\<rparr>]
   \<and> spec_nullOrDuplicate \<lparr>v_row = 1, v_col = ''a'', v_type = ''NOT NULL'', v_msg = ''Null/empty value'', v_value = None\<rparr>"
proof -
  have a: "map r_rows (generateGeneralRepairs
      (checkViolations \<lparr>numberText = (\<lambda>_. False), dateText = (\<lambda>_. False)\<rparr>
         [[(''id'', JStr []), (''a'', JStr ''x'')], [(''a'', JStr []), (''id'', JStr ''1'')]]
         [[''notnull''], []] Map.empty None [])
      [[(''id'', JStr []), (''a'', JStr ''x'')], [(''a'', JStr []), (''id'', JStr ''1'')]] None (\<lambda>_. 0))
   = [[[(''a'', JStr []), (''id'', JStr ''1'')]]]"
    by code_simp
  have b: "checkViolations \<lparr>numberText = (\<lambda>_. False), dateText = (\<lambda>_. False)\<rparr>
        [[(''a'', JStr []), (''id'', JStr ''1'')]] [[''notnull''], []] Map.empty None []
     = [\<lparr>v_row = 1, v_col = ''a'', v_type = ''NOT NULL'', v_msg = ''Null/empty value'', v_value = None\<rparr>]"
    by code_simp
  have c: "spec_nullOrDuplicate \<lparr>v_row = 1, v_col = ''a'', v_type = ''NOT NULL'', v_msg = ''Null/empty value'', v_value = None\<rparr>"
    by (simp add: spec_nullOrDuplicate_def)
  from a b c show ?thesis by blast
qed

theorem generateGeneralRepairs_clean_witness:
  "wellFormedTable [[(''id'', JNum 1), (''a'', JStr ''x'')], [(''id'', JNum 1), (''a'', JStr [])], [(''id'', JNum 2), (''a'', JStr ''z'')]]
   \<and> map r_rows (generateGeneralRepairs (checkViolations \<lparr>numberText = (\<lambda>_. False), dateText = (\<lambda>_. False)\<rparr>
        [[(''id'', JNum 1), (''a'', JStr ''x'')], [(''id'', JNum 1), (''a'', JStr [])], [(''id'', JNum 2), (''a'', JStr ''z'')]]
        [[''unique''], [''notnull'']] Map.empty None [])
        [[(''id'', JNum 1), (''a'', JStr ''x'')], [(''id'', JNum 1), (''a'', JStr [])], [(''id'', JNum 2), (''a'', JStr ''z'')]] None (\<lambda>_. 0))
     = [[[(''id'', JNum 1), (''a'', JStr ''x'')], [(''id'', JNum 2), (''a'', JStr ''z'')]]]
   \<and> filter spec_nullOrDuplicate
       (checkViolations \<lparr>numberText = (\<lambda>_. False), dateText = (\<lambda>_. False)\<rparr>
          (r_rows (hd (generateGeneralRepairs (checkViolations \<lparr>numberText = (\<lambda>_. False), dateText = (\<lambda>_. False)\<rparr>
        [[(''id'', JNum 1), (''a'', JStr ''x'')], [(''id'', JNum 1), (''a'', JStr [])], [(''id'', JNum 2), (''a'', JStr ''z'')]]
        [[''unique''], [''notnull'']] Map.empty None [])
        [[(''id'', JNum 1), (''a'', JStr ''x'')], [(''id'', JNum 1), (''a'', JStr [])], [(''id'', JNum 2), (''a'', JStr ''z'')]] None (\<lambda>_. 0))))
          [[''unique''], [''notnull'']] Map.empty None []) = []"
proof -
  let ?T = "[[(''id'', JNum 1), (''a'', JStr ''x'')], [(''id'', JNum 1), (''a'', JStr [])], [(''id'', JNum 2), (''a'', JStr ''z'')]]"
  let ?G = "(generateGeneralRepairs (checkViolations \<lparr>numberText = (\<lambda>_. False), dateText = (\<lambda>_. False)\<rparr>
        [[(''id'', JNum 1), (''a'', JStr ''x'')], [(''id'', JNum 1), (''a'', JStr [])], [(''id'', JNum 2), (''a'', JStr ''z'')]]
        [[''unique''], [''notnull'']] Map.empty None [])
        [[(''id'', JNum 1), (''a'', JStr ''x'')], [(''id'', JNum 1), (''a'', JStr [])], [(''id'', JNum 2), (''a'', JStr ''z'')]] None (\<lambda>_. 0))"
  have w: "wellFormedTable ?T" by (simp add: wellFormedTable_def columnsOf_def Object_keys_def)
  have r: "map r_rows ?G
     = [[[(''id'', JNum 1), (''a'', JStr ''x'')], [(''id'', JNum 2), (''a'', JStr ''z'')]]]"
    by code_simp
  have ne: "xs \<noteq> []" if "map r_rows xs = y # ys" for xs y ys
    using that by auto
  have m: "hd ?G \<in> set ?G" by (rule hd_in_set[OF ne[OF r]])
  note s = generateGeneralRepairs_clean[OF w, of "\<lparr>numberText = (\<lambda>_. False), dateText = (\<lambda>_. False)\<rparr>"
      "[[''unique''], [''notnull'']]" Map.empty None "[]" None "\<lambda>_. 0"]
  from s m have "\<forall>v \<in> set (checkViolations \<lparr>numberText = (\<lambda>_. False), dateText = (\<lambda>_. False)\<rparr>
          (r_rows (hd ?G)) [[''unique''], [''notnull'']] Map.empty None []). \<not> spec_nullOrDuplicate v"
    by blast
  then have "filter spec_nullOrDuplicate
       (checkViolations \<lparr>numberText = (\<lambda>_. False), dateText = (\<lambda>_. False)\<rparr>
          (r_rows (hd ?G)) [[''unique''], [''notnull'']] Map.empty None []) = []"
    unfolding filter_empty_conv .
  with w r show ?thesis by blast
qed

section \<open>Empty input: proofs\<close>







section \<open>Primary-key repairs: proofs\<close>

lemma collectRepairs_distinct:
  assumes "distinct (map (\<lambda>c. JSON_stringify (valueTuples c)) repairFileObjs)"
    and "(\<lambda>c. JSON_stringify (valueTuples c)) ` set repairFileObjs \<subseteq> seenRepairs"
  shows "distinct (map (\<lambda>c. JSON_stringify (valueTuples c))
           (collectRepairs pkCols nGroups file columns clock seenRepairs repairFileObjs idx allRepairs))"
  using assms
proof (induction allRepairs arbitrary: seenRepairs repairFileObjs idx)
  case Nil
  then show ?case by simp
next
  case (Cons rows rest)
  let ?filtered = "filter (survives pkCols) rows"
  let ?key = "JSON_stringify (map Object_values ?filtered)"
  show ?case
  proof (cases "length rows \<noteq> nGroups \<or> ?filtered = [] \<or> ?key \<in> seenRepairs")
    case True
    then show ?thesis using Cons.IH[OF Cons.prems] by (auto simp: Let_def)
  next
    case False
    let ?new = "\<lparr>r_name = file @ ''_repair_'' @ show_nat (idx + 1) @ ''_''
                          @ show_nat (clock (length repairFileObjs)) @ ''.csv'',
                 r_rows = ?filtered, r_columns = columns, r_description = None\<rparr>"
    have k: "JSON_stringify (valueTuples ?new) = ?key" by (simp add: valueTuples_def)
    have d: "distinct (map (\<lambda>c. JSON_stringify (valueTuples c)) (repairFileObjs @ [?new]))"
      using Cons.prems False k by auto
    have s: "(\<lambda>c. JSON_stringify (valueTuples c)) ` set (repairFileObjs @ [?new]) \<subseteq> insert ?key seenRepairs"
      using Cons.prems(2) k by auto
    show ?thesis using False Cons.IH[OF d s] by (simp add: Let_def)
  qed
qed

lemma groupRows_throws:
  "groupRows pkCols pkGroups rows = Inl e
   \<Longrightarrow> \<exists>row \<in> set rows. joinValues ''||'' (map (\<lambda>col. get row col) pkCols) \<in> set Object_prototype_names"
  by (induction rows arbitrary: pkGroups) (auto simp: Let_def split: if_splits)

lemma generatePrimaryKeyRepairs_Inr:
  assumes "generatePrimaryKeyRepairs tableData confirmedConstraints selectedFile clock = Inr candidates"
  shows "distinct (map valueTuples candidates)"
proof -
  have "distinct (map (\<lambda>c. JSON_stringify (valueTuples c)) candidates)"
  proof (cases "pkColsOf tableData confirmedConstraints = []")
    case True
    then show ?thesis using assms by (simp add: generatePrimaryKeyRepairs_def)
  next
    case False
    with assms obtain pkGroups where
      "candidates = collectRepairs (pkColsOf tableData confirmedConstraints)
         (length (Object_values_groups pkGroups)) (fileOrTable selectedFile) (columnsOf tableData)
         clock {} [] 0 (cartesian (Object_values_groups pkGroups))"
      by (auto simp: generatePrimaryKeyRepairs_def Let_def split: sum.splits)
    then show ?thesis using collectRepairs_distinct[of "[]" "{}"] by simp
  qed
  then have "distinct (map JSON_stringify (map valueTuples candidates))"
    by (simp add: comp_def)
  then show ?thesis by (auto simp: distinct_map dest: inj_on_imageI2)
qed

lemma generatePrimaryKeyRepairs_Inl:
  assumes "generatePrimaryKeyRepairs tableData confirmedConstraints selectedFile clock = Inl e"
  shows "\<exists>row \<in> set tableData.
           joinValues ''||'' (map (\<lambda>col. get row col) (pkColsOf tableData confirmedConstraints))
             \<in> set Object_prototype_names"
proof -
  from assms obtain e' where
    "groupRows (pkColsOf tableData confirmedConstraints) [] tableData = Inl e'"
    by (auto simp: generatePrimaryKeyRepairs_def Let_def split: if_splits sum.splits)
  then show ?thesis by (rule groupRows_throws)
qed

text \<open>
  C6. No two candidates returned by \<open>generatePrimaryKeyRepairs\<close> have the same value
  tuples of surviving rows: a combination whose serialized value tuples were seen before
  contributes no candidate. The function returns its candidates unless the key text of
  some row is a property name of \<open>Object.prototype\<close>, in which case it throws.
\<close>

theorem generatePrimaryKeyRepairs_distinct:
  "(case generatePrimaryKeyRepairs tableData confirmedConstraints selectedFile clock of
      Inl e \<Rightarrow> \<exists>row \<in> set tableData.
                 joinValues ''||'' (map (\<lambda>col. get row col) (pkColsOf tableData confirmedConstraints))
                   \<in> set Object_prototype_names
    | Inr candidates \<Rightarrow> distinct (map valueTuples candidates))"
  using generatePrimaryKeyRepairs_Inl generatePrimaryKeyRepairs_Inr
  by (auto split: sum.splits)

theorem generatePrimaryKeyRepairs_distinct_witness:
  "map r_rows (case generatePrimaryKeyRepairs
        [[(''id'', JNum 1), (''a'', JStr ''x'')], [(''id'', JNum 1), (''a'', JStr ''x'')], [(''id'', JNum 2), (''a'', JStr ''z'')]]
        [[''primary''], []] None (\<lambda>_. 0) of Inl e \<Rightarrow> [] | Inr cs \<Rightarrow> cs)
     = [[[(''id'', JNum 1), (''a'', JStr ''x'')], [(''id'', JNum 2), (''a'', JStr ''z'')]]]
   \<and> distinct (map valueTuples (case generatePrimaryKeyRepairs
        [[(''id'', JNum 1), (''a'', JStr ''x'')], [(''id'', JNum 1), (''a'', JStr ''x'')], [(''id'', JNum 2), (''a'', JStr ''z'')]]
        [[''primary''], []] None (\<lambda>_. 0) of Inl e \<Rightarrow> [] | Inr cs \<Rightarrow> cs))"
proof -
  let ?G = "generatePrimaryKeyRepairs
        [[(''id'', JNum 1), (''a'', JStr ''x'')], [(''id'', JNum 1), (''a'', JStr ''x'')], [(''id'', JNum 2), (''a'', JStr ''z'')]]
        [[''primary''], []] None (\<lambda>_. 0)"
  have e: "?G = Inr [\<lparr>r_name = ''table_repair_1_0.csv'',
                       r_rows = [[(''id'', JNum 1), (''a'', JStr ''x'')], [(''id'', JNum 2), (''a'', JStr ''z'')]],
                       r_columns = [''id'', ''a''], r_description = None\<rparr>]"
    by code_simp
  from generatePrimaryKeyRepairs_distinct[of "[[(''id'', JNum 1), (''a'', JStr ''x'')], [(''id'', JNum 1), (''a'', JStr ''x'')], [(''id'', JNum 2), (''a'', JStr ''z'')]]"
      "[[''primary''], []]" None "\<lambda>_. 0"] e
  show ?thesis by simp
qed

end
